theory Spec2Isabelle
  imports Main "HOL-Library.AList" "HOL-Library.Multiset"
begin

section \<open>Text: characters, regular-expression classes, JavaScript string operations\<close>

text \<open>
  A JavaScript string is modelled as a \<^typ>\<open>string\<close>, one \<^typ>\<open>char\<close> per code unit.
  The type \<^typ>\<open>char\<close> holds the code units \<open>0x00\<close> to \<open>0xFF\<close>, Basic Latin and Latin-1;
  the character classes and the string operations below are those of JavaScript on
  these code units.
\<close>

definition digits :: string where
  "digits = ''0123456789''"

definition lowerLetters :: string where
  "lowerLetters = ''abcdefghijklmnopqrstuvwxyz''"

definition upperLetters :: string where
  "upperLetters = ''ABCDEFGHIJKLMNOPQRSTUVWXYZ''"

text \<open>
  The letters of Latin-1 that have two cases, \<open>0xC0\<close> to \<open>0xDE\<close> without the
  multiplication sign \<open>0xD7\<close>, and their lower-case forms \<open>0xE0\<close> to \<open>0xFE\<close> without
  the division sign \<open>0xF7\<close>.
\<close>

definition upperLatin1 :: string where
  "upperLatin1 =
     [CHR 0xC0, CHR 0xC1, CHR 0xC2, CHR 0xC3, CHR 0xC4, CHR 0xC5, CHR 0xC6, CHR 0xC7,
      CHR 0xC8, CHR 0xC9, CHR 0xCA, CHR 0xCB, CHR 0xCC, CHR 0xCD, CHR 0xCE, CHR 0xCF,
      CHR 0xD0, CHR 0xD1, CHR 0xD2, CHR 0xD3, CHR 0xD4, CHR 0xD5, CHR 0xD6,
      CHR 0xD8, CHR 0xD9, CHR 0xDA, CHR 0xDB, CHR 0xDC, CHR 0xDD, CHR 0xDE]"

definition lowerLatin1 :: string where
  "lowerLatin1 =
     [CHR 0xE0, CHR 0xE1, CHR 0xE2, CHR 0xE3, CHR 0xE4, CHR 0xE5, CHR 0xE6, CHR 0xE7,
      CHR 0xE8, CHR 0xE9, CHR 0xEA, CHR 0xEB, CHR 0xEC, CHR 0xED, CHR 0xEE, CHR 0xEF,
      CHR 0xF0, CHR 0xF1, CHR 0xF2, CHR 0xF3, CHR 0xF4, CHR 0xF5, CHR 0xF6,
      CHR 0xF8, CHR 0xF9, CHR 0xFA, CHR 0xFB, CHR 0xFC, CHR 0xFD, CHR 0xFE]"

text \<open>
  The letters of Latin-1 that \<open>normalize('NFD')\<close> decomposes into a base letter and a
  combining mark, and their base letters, in the same order.
\<close>

definition accentedLetters :: string where
  "accentedLetters =
     [CHR 0xC0, CHR 0xC1, CHR 0xC2, CHR 0xC3, CHR 0xC4, CHR 0xC5, CHR 0xC7,
      CHR 0xC8, CHR 0xC9, CHR 0xCA, CHR 0xCB, CHR 0xCC, CHR 0xCD, CHR 0xCE, CHR 0xCF,
      CHR 0xD1, CHR 0xD2, CHR 0xD3, CHR 0xD4, CHR 0xD5, CHR 0xD6,
      CHR 0xD9, CHR 0xDA, CHR 0xDB, CHR 0xDC, CHR 0xDD,
      CHR 0xE0, CHR 0xE1, CHR 0xE2, CHR 0xE3, CHR 0xE4, CHR 0xE5, CHR 0xE7,
      CHR 0xE8, CHR 0xE9, CHR 0xEA, CHR 0xEB, CHR 0xEC, CHR 0xED, CHR 0xEE, CHR 0xEF,
      CHR 0xF1, CHR 0xF2, CHR 0xF3, CHR 0xF4, CHR 0xF5, CHR 0xF6,
      CHR 0xF9, CHR 0xFA, CHR 0xFB, CHR 0xFC, CHR 0xFD, CHR 0xFF]"

definition baseLetters :: string where
  "baseLetters = ''AAAAAACEEEEIIIINOOOOOUUUUYaaaaaaceeeeiiiinooooouuuuyy''"

text \<open>The class \<open>[0-9]\<close>.\<close>

definition isNumber :: "char \<Rightarrow> bool" where
  "isNumber c = (c \<in> set digits)"

text \<open>The class \<open>[a-zA-Z]\<close>.\<close>

definition isLetter :: "char \<Rightarrow> bool" where
  "isLetter c = (c \<in> set lowerLetters \<or> c \<in> set upperLetters)"

text \<open>The class \<open>\w\<close>, that is \<open>[A-Za-z0-9_]\<close>.\<close>

definition isWordChar :: "char \<Rightarrow> bool" where
  "isWordChar c = (isLetter c \<or> isNumber c \<or> c = CHR ''_'')"

text \<open>
  The class \<open>\s\<close>: tab, line feed, vertical tab, form feed, carriage return, space and
  the no-break space \<open>0xA0\<close>. They are also the characters \<open>trim\<close> removes.
\<close>

definition isSpace :: "char \<Rightarrow> bool" where
  "isSpace c = (c \<in> set [CHR 0x09, CHR 0x0A, CHR 0x0B, CHR 0x0C, CHR 0x0D, CHR '' '', CHR 0xA0])"

text \<open>\<open>s.toLowerCase()\<close>, character by character.\<close>

definition lowerChar :: "char \<Rightarrow> char" where
  "lowerChar c =
     (case map_of (zip (upperLetters @ upperLatin1) (lowerLetters @ lowerLatin1)) c of
        Some l \<Rightarrow> l
      | None \<Rightarrow> c)"

definition toLowerCase :: "string \<Rightarrow> string" where
  "toLowerCase s = map lowerChar s"

text \<open>
  \<open>s.normalize('NFD').replace(/[\u0300-\u036f]/g, '')\<close>: the decomposition puts a base
  letter and a combining mark in the place of an accented letter, and the replacement
  removes the mark, the only characters of the class there can be. So the accented
  letter becomes its base letter, and every other character stays.
\<close>

definition baseChar :: "char \<Rightarrow> char" where
  "baseChar c = (case map_of (zip accentedLetters baseLetters) c of Some b \<Rightarrow> b | None \<Rightarrow> c)"

definition removeAccents :: "string \<Rightarrow> string" where
  "removeAccents s = map baseChar s"

text \<open>\<open>s.replace(/[^\w\s]/g, ' ')\<close>\<close>

definition replacePunctuation :: "string \<Rightarrow> string" where
  "replacePunctuation s = map (\<lambda>c. if \<not> isWordChar c \<and> \<not> isSpace c then CHR '' '' else c) s"

text \<open>\<open>s.replace(/\s+/g, ' ')\<close>: every maximal run of whitespace becomes one space.\<close>

function collapseSpaces :: "string \<Rightarrow> string" where
  "collapseSpaces [] = []"
| "collapseSpaces (c # cs) =
     (if isSpace c then CHR '' '' # collapseSpaces (dropWhile isSpace cs)
      else c # collapseSpaces cs)"
  by pat_completeness auto
termination
  by (relation "measure length") (auto simp: less_Suc_eq_le length_dropWhile_le)

definition trim :: "string \<Rightarrow> string" where
  "trim s = rev (dropWhile isSpace (rev (dropWhile isSpace s)))"

text \<open>
  \<open>s.slice(a, b)\<close>, of a string or an array: a negative index counts from the end,
  both are clamped to the length.
\<close>

definition sliceIndex :: "nat \<Rightarrow> int \<Rightarrow> nat" where
  "sliceIndex n i = (if i < 0 then nat (max 0 (int n + i)) else min (nat i) n)"

definition slice :: "'a list \<Rightarrow> int \<Rightarrow> int \<Rightarrow> 'a list" where
  "slice s a b = take (sliceIndex (length s) b - sliceIndex (length s) a)
                      (drop (sliceIndex (length s) a) s)"

text \<open>\<open>s[i]\<close>: \<open>undefined\<close> (here \<open>None\<close>) outside the string.\<close>

definition charAt :: "string \<Rightarrow> int \<Rightarrow> char option" where
  "charAt s i = (if 0 \<le> i \<and> i < int (length s) then Some (s ! nat i) else None)"

text \<open>\<open>s.split(' ')\<close>\<close>

fun split :: "string \<Rightarrow> string list" where
  "split [] = [[]]"
| "split (c # cs) =
     (if c = CHR '' '' then [] # split cs
      else (case split cs of [] \<Rightarrow> [[c]] | w # ws \<Rightarrow> (c # w) # ws))"

subsection \<open>normalizeText\<close>

definition normalizeTextChunk :: "string \<Rightarrow> string" where
  "normalizeTextChunk s =
     trim (collapseSpaces (replacePunctuation (removeAccents (toLowerCase s))))"

definition MAX_CHUNK_SIZE :: nat where
  "MAX_CHUNK_SIZE = 1024 * 1024"

text \<open>The pieces \<open>text.slice(i, i + n)\<close> for \<open>i = 0, n, 2n, ...\<close> below \<open>text.length\<close>.\<close>

function pieces :: "nat \<Rightarrow> string \<Rightarrow> string list" where
  "pieces n s = (if n = 0 \<or> s = [] then [] else take n s # pieces n (drop n s))"
  by pat_completeness auto
termination
  by (relation "measure (\<lambda>(n, s). length s)") auto

definition normalizeText :: "string \<Rightarrow> string" where
  "normalizeText s =
     (if s = [] then []
      else if length s > MAX_CHUNK_SIZE
        then concat (map normalizeTextChunk (pieces MAX_CHUNK_SIZE s))
      else normalizeTextChunk s)"

section \<open>Pattern compilation\<close>

text \<open>A prospect \<open>{id, name, company}\<close>; \<open>ident\<close> stands for the field \<open>id\<close>.\<close>

record prospect =
  ident :: string
  name :: string
  company :: string

datatype variation_type = first_last_exact | first_last_with_initial | company_root

text \<open>
  A variation object \<open>{text, type, firstName, lastName, allowInitial}\<close>;
  \<open>pattern_text\<close> and \<open>vtype\<close> stand for the fields \<open>text\<close> and \<open>type\<close>. A field the
  source leaves out is \<open>undefined\<close> there: \<open>allowInitial\<close> is then falsy (\<open>False\<close>
  here), and \<open>firstName\<close>, \<open>lastName\<close> (empty here) are read only under \<open>allowInitial\<close>.
\<close>

record variation =
  pattern_text :: string
  vtype :: variation_type
  firstName :: string
  lastName :: string
  allowInitial :: bool

text \<open>\<open>this.normalizeText(fullName).split(' ').filter(t => t.length > 0)\<close>\<close>

definition nameTokens :: "string \<Rightarrow> string list" where
  "nameTokens fullName = filter (\<lambda>t. length t > 0) (split (normalizeText fullName))"

definition generateNamePatterns :: "string \<Rightarrow> variation list" where
  "generateNamePatterns fullName =
     (let tokens = nameTokens fullName in
      if length tokens < 2 then []
      else
        let first = tokens ! 0; lst = tokens ! (length tokens - 1) in
        if length first < 2 \<or> length lst < 2 then []
        else
          [\<lparr>pattern_text = first @ '' '' @ lst, vtype = first_last_exact,
            firstName = first, lastName = lst, allowInitial = False\<rparr>,
           \<lparr>pattern_text = first @ '' '' @ lst, vtype = first_last_with_initial,
            firstName = first, lastName = lst, allowInitial = True\<rparr>])"

text \<open>
  The assertion \<open>\b\<close> between two neighbouring characters (\<open>None\<close> at either end of the
  string): exactly one of them is a word character.
\<close>

definition isWordOpt :: "char option \<Rightarrow> bool" where
  "isWordOpt c = (case c of None \<Rightarrow> False | Some x \<Rightarrow> isWordChar x)"

definition wordBoundary :: "char option \<Rightarrow> char option \<Rightarrow> bool" where
  "wordBoundary a b = (isWordOpt a \<noteq> isWordOpt b)"

definition headOpt :: "string \<Rightarrow> char option" where
  "headOpt s = (case s of [] \<Rightarrow> None | c # _ \<Rightarrow> Some c)"

text \<open>The alternatives of \<open>(inc|incorporated|...|l p)\<close>, in the order the source lists them.\<close>

definition legalSuffixes :: "string list" where
  "legalSuffixes = [''inc'', ''incorporated'', ''corp'', ''corporation'', ''company'', ''co'',
     ''llc'', ''ltd'', ''limited'', ''plc'', ''lp'', ''l p'']"

text \<open>
  One attempt of \<open>/\b(inc|...|l p)\b/\<close> at the start of \<open>s\<close>, the character before it
  being \<open>prev\<close>: the first alternative that is a prefix of \<open>s\<close> and ends at a \<open>\b\<close>.
\<close>

definition matchLegalSuffix :: "char option \<Rightarrow> string \<Rightarrow> string option" where
  "matchLegalSuffix prev s =
     (if wordBoundary prev (headOpt s)
      then find (\<lambda>w. take (length w) s = w \<and>
                     wordBoundary (Some (last w)) (headOpt (drop (length w) s))) legalSuffixes
      else None)"

text \<open>
  \<open>s.replace(/\b(inc|...|l p)\b/g, '')\<close>: a left-to-right scan; a match is deleted and
  the scan goes on behind it, any other character is kept.
\<close>

function removeLegalSuffixes :: "char option \<Rightarrow> string \<Rightarrow> string" where
  "removeLegalSuffixes prev [] = []"
| "removeLegalSuffixes prev (c # cs) =
     (case matchLegalSuffix prev (c # cs) of
        Some w \<Rightarrow> removeLegalSuffixes (Some (last w)) (drop (length w) (c # cs))
      | None \<Rightarrow> c # removeLegalSuffixes (Some c) cs)"
  by pat_completeness auto
termination
  by (relation "measure (\<lambda>(p, s). length s)")
     (auto simp: matchLegalSuffix_def legalSuffixes_def split: if_splits)

definition companyRoot :: "string \<Rightarrow> string" where
  "companyRoot normalized = trim (collapseSpaces (removeLegalSuffixes None normalized))"

definition generateCompanyPatterns :: "string \<Rightarrow> variation list" where
  "generateCompanyPatterns companyName =
     (let normalized = normalizeText companyName in
      if normalized = [] \<or> length normalized < 3 then []
      else
        let root = companyRoot normalized in
        if length root < 3 then []
        else [\<lparr>pattern_text = root, vtype = company_root,
                firstName = [], lastName = [], allowInitial = False\<rparr>])"

section \<open>The automaton index\<close>

text \<open>The type \<open>'name'\<close> or \<open>'company'\<close> of an entry of the pattern map.\<close>

datatype pattern_kind = name_pattern | company_pattern

text \<open>An entry of a variation list: \<open>{prospectId: prospect.id, ...variation}\<close>.\<close>

record tagged_variation = variation +
  prospectId :: string

record pattern_info =
  ptype :: pattern_kind
  prospectIds :: "string list"
  variations :: "tagged_variation list"

text \<open>
  The JavaScript \<open>Map\<close> from pattern text to its entry keeps its keys in insertion
  order: an association list, extended at the end, updated in place.
\<close>

type_synonym pattern_map = "(string \<times> pattern_info) list"

definition tagVariation :: "string \<Rightarrow> variation \<Rightarrow> tagged_variation" where
  "tagVariation p v =
     \<lparr>pattern_text = pattern_text v, vtype = vtype v, firstName = firstName v,
      lastName = lastName v, allowInitial = allowInitial v, prospectId = p\<rparr>"

text \<open>
  The body of both \<open>forEach\<close> loops of \<open>buildAutomaton\<close>, with \<open>kind\<close> the type
  a new entry gets. The state is \<open>(this.patternMap, allPatterns)\<close>.
\<close>

definition registerVariation ::
  "pattern_kind \<Rightarrow> string \<Rightarrow> pattern_map \<times> string list \<Rightarrow> variation \<Rightarrow> pattern_map \<times> string list"
where
  "registerVariation kind p st v =
     (let pat = pattern_text v;
          st1 = (if map_of (fst st) pat = None
                 then (fst st @ [(pat, \<lparr>ptype = kind, prospectIds = [], variations = []\<rparr>)],
                       snd st @ [pat])
                 else st)
      in (AList.map_entry pat
            (\<lambda>info. info\<lparr>prospectIds := prospectIds info @ [p],
                             variations := variations info @ [tagVariation p v]\<rparr>)
            (fst st1),
          snd st1))"

definition registerProspect :: "pattern_map \<times> string list \<Rightarrow> prospect \<Rightarrow> pattern_map \<times> string list" where
  "registerProspect st p =
     foldl (registerVariation company_pattern (ident p))
       (foldl (registerVariation name_pattern (ident p)) st (generateNamePatterns (name p)))
       (generateCompanyPatterns (company p))"

text \<open>
  \<open>buildAutomaton\<close> returns the pattern map and \<open>allPatterns\<close>, the list the automaton
  is constructed from.
\<close>

definition buildAutomaton :: "prospect list \<Rightarrow> pattern_map \<times> string list" where
  "buildAutomaton prospects = foldl registerProspect ([], []) prospects"

text \<open>
  Modelled from the spec: the package \<open>ahocorasick\<close> is a dependency whose code is not
  among the sources. Its \<open>search\<close> yields, for every index at which some pattern ends,
  in ascending order, the pair of that index and the patterns ending there; every
  occurrence of every pattern is reported, overlapping ones too. The patterns at one
  index are listed longest first.
\<close>

definition endsAt :: "string \<Rightarrow> string \<Rightarrow> nat \<Rightarrow> bool" where
  "endsAt p s i = (p \<noteq> [] \<and> length p \<le> Suc i \<and> take (length p) (drop (Suc i - length p) s) = p)"

definition patternsEndingAt :: "string list \<Rightarrow> string \<Rightarrow> nat \<Rightarrow> string list" where
  "patternsEndingAt pats s i = rev (sort_key length (filter (\<lambda>p. endsAt p s i) pats))"

definition search :: "string list \<Rightarrow> string \<Rightarrow> (nat \<times> string list) list" where
  "search pats s =
     concat (map (\<lambda>i. if patternsEndingAt pats s i = [] then [] else [(i, patternsEndingAt pats s i)])
                 [0..<length s])"

section \<open>Boundary validation\<close>

text \<open>
  The class \<open>[\s\.,;:!?\-\(\)\[\]{}"\'/\\|~`@#$%^&*+=<>]\<close>; the double quote, the quote,
  the backslash and the backquote are written by their codes.
\<close>

definition boundaryChars :: string where
  "boundaryChars = ''.,;:!?-()[]{}'' @ [CHR 0x22, CHR 0x27, CHR ''/'', CHR 0x5C, CHR ''|'',
     CHR ''~'', CHR 0x60] @ ''@#$%^&*+=<>''"

definition isBoundaryChar :: "char \<Rightarrow> bool" where
  "isBoundaryChar c = (isSpace c \<or> c \<in> set boundaryChars)"

text \<open>
  \<open>regex.test(x)\<close> for a one-character class and an \<open>x\<close> that is a character or
  \<open>undefined\<close>; \<open>test\<close> converts \<open>undefined\<close> to the string \<open>"undefined"\<close>.
\<close>

definition testOpt :: "(char \<Rightarrow> bool) \<Rightarrow> char option \<Rightarrow> bool" where
  "testOpt P x = (case x of Some c \<Rightarrow> P c | None \<Rightarrow> list_ex P ''undefined'')"

text \<open>The object \<open>{start, end, pattern}\<close>; \<open>stop\<close> stands for the field \<open>end\<close>.\<close>

record match_span =
  start :: int
  stop :: int
  pattern :: string

definition beforeChar :: "string \<Rightarrow> match_span \<Rightarrow> char option" where
  "beforeChar s m = (if start m > 0 then charAt s (start m - 1) else None)"

definition afterChar :: "string \<Rightarrow> match_span \<Rightarrow> char option" where
  "afterChar s m = (if stop m < int (length s) then charAt s (stop m) else None)"

definition hasValidWordBoundaries :: "string \<Rightarrow> match_span \<Rightarrow> bool" where
  "hasValidWordBoundaries s m =
     (let beforeIsBoundary =
            (case beforeChar s m of
               None \<Rightarrow> True
             | Some b \<Rightarrow> isBoundaryChar b \<or> (isNumber b \<and> testOpt isLetter (charAt s (start m))));
          afterIsBoundary =
            (case afterChar s m of
               None \<Rightarrow> True
             | Some a \<Rightarrow> isBoundaryChar a \<or> (testOpt isLetter (charAt s (stop m - 1)) \<and> isNumber a))
      in beforeIsBoundary \<and> afterIsBoundary)"

section \<open>The check for an optional middle initial\<close>

text \<open>
  \<open>new RegExp(`\\b${first}\\s+(?:[a-z]\\.?\\s+)?${last}\\b`, 'i').test(s)\<close>, the two
  names escaped so that they match literally. The test succeeds when some position
  and some choice of the lengths of the whitespace runs, of the optional group and of
  the optional period give a match.
\<close>

definition charAtNat :: "string \<Rightarrow> nat \<Rightarrow> char option" where
  "charAtNat s i = (if i < length s then Some (s ! i) else None)"

definition wordBoundaryAt :: "string \<Rightarrow> nat \<Rightarrow> bool" where
  "wordBoundaryAt s i = wordBoundary (if i = 0 then None else charAtNat s (i - 1)) (charAtNat s i)"

definition literalAt :: "string \<Rightarrow> string \<Rightarrow> nat \<Rightarrow> bool" where
  "literalAt w s i = (toLowerCase (take (length w) (drop i s)) = toLowerCase w)"

definition spaceRun :: "string \<Rightarrow> nat \<Rightarrow> nat" where
  "spaceRun s i = length (takeWhile isSpace (drop i s))"

definition lastNameAt :: "string \<Rightarrow> string \<Rightarrow> nat \<Rightarrow> bool" where
  "lastNameAt lst s k = (literalAt lst s k \<and> wordBoundaryAt s (k + length lst))"

definition initialAt :: "string \<Rightarrow> string \<Rightarrow> nat \<Rightarrow> bool" where
  "initialAt lst s p =
     ((case charAtNat s p of None \<Rightarrow> False | Some c \<Rightarrow> isLetter c) \<and>
      list_ex (\<lambda>d. (d = 0 \<or> charAtNat s (Suc p) = Some CHR ''.'') \<and>
                   list_ex (\<lambda>b. lastNameAt lst s (Suc p + d + b)) [1..<Suc (spaceRun s (Suc p + d))])
              [0, 1])"

definition nameRegexAt :: "string \<Rightarrow> string \<Rightarrow> string \<Rightarrow> nat \<Rightarrow> bool" where
  "nameRegexAt first lst s i =
     (wordBoundaryAt s i \<and> literalAt first s i \<and>
      list_ex (\<lambda>a. initialAt lst s (i + length first + a) \<or> lastNameAt lst s (i + length first + a))
              [1..<Suc (spaceRun s (i + length first))])"

definition nameRegexTest :: "string \<Rightarrow> string \<Rightarrow> string \<Rightarrow> bool" where
  "nameRegexTest first lst s = list_ex (nameRegexAt first lst s) [0..<Suc (length s)]"

section \<open>Scanning one document\<close>

text \<open>
  A context object \<open>{pattern, type, context, position}\<close>; \<open>context_pattern\<close>,
  \<open>context_type\<close> and \<open>snippet\<close> stand for the first three fields.
\<close>

record context_info =
  context_pattern :: string
  context_type :: pattern_kind
  snippet :: string
  position :: int

record hit =
  nameHit :: bool
  companyHit :: bool
  contexts :: "context_info list"

text \<open>\<open>prospectHits\<close>, a \<open>Map\<close> from prospect id to hit record, in insertion order.\<close>

type_synonym hit_map = "(string \<times> hit) list"

record scan_state =
  prospectHits :: hit_map
  processedBytes :: nat
  previousOverlap :: string

text \<open>\<open>CHUNK_SIZE\<close> is the \<open>highWaterMark\<close> of the stream: a file is delivered in chunks of
  this size, the last one shorter.\<close>

definition CHUNK_SIZE :: nat where
  "CHUNK_SIZE = 4 * 1024 * 1024"

definition OVERLAP_SIZE :: nat where
  "OVERLAP_SIZE = 2000"

definition newHit :: hit where
  "newHit = \<lparr>nameHit = False, companyHit = False, contexts = []\<rparr>"

definition makeContext :: "string \<Rightarrow> nat \<Rightarrow> string \<Rightarrow> pattern_kind \<Rightarrow> int \<Rightarrow> int \<Rightarrow> context_info" where
  "makeContext normalizedText processed pat kind startIndex endIndex =
     (let c = slice normalizedText (max 0 (startIndex - 20))
                (min (int (length normalizedText)) (endIndex + 20))
      in \<lparr>context_pattern = pat, context_type = kind,
          snippet = (if length c > 60 then slice c 0 60 @ ''...'' else c),
          position = startIndex + int processed\<rparr>)"

text \<open>
  The body of \<open>patternInfo.variations.forEach\<close>. The hit record of the prospect is
  created before the check for the initial, so it stays in the map (with the flags it
  has) when that check returns early.
\<close>

definition recordVariation ::
  "string \<Rightarrow> nat \<Rightarrow> string \<Rightarrow> pattern_info \<Rightarrow> int \<Rightarrow> int \<Rightarrow> hit_map \<Rightarrow> tagged_variation \<Rightarrow> hit_map"
where
  "recordVariation normalizedText processed pat info startIndex endIndex hits v =
     (let hits1 = (case map_of hits (prospectId v) of
                     None \<Rightarrow> hits @ [(prospectId v, newHit)]
                   | Some h \<Rightarrow> hits);
          h = (case map_of hits (prospectId v) of None \<Rightarrow> newHit | Some h \<Rightarrow> h)
      in if ptype info = name_pattern \<and> allowInitial v \<and>
            \<not> nameRegexTest (firstName v) (lastName v)
                (slice normalizedText (max 0 (startIndex - 10))
                   (min (int (length normalizedText)) (endIndex + 20)))
         then hits1
         else
           let h1 = (case ptype info of
                       name_pattern \<Rightarrow> h\<lparr>nameHit := True\<rparr>
                     | company_pattern \<Rightarrow> h\<lparr>companyHit := True\<rparr>);
               h2 = (if length (contexts h1) < 1
                     then h1\<lparr>contexts := contexts h1 @
                            [makeContext normalizedText processed pat (ptype info) startIndex endIndex]\<rparr>
                     else h1)
           in AList.update (prospectId v) h2 hits1)"

text \<open>The body of \<open>matchedPatterns.forEach\<close>, for a match ending at \<open>endIndex\<close>.\<close>

definition processPattern ::
  "pattern_map \<Rightarrow> string \<Rightarrow> nat \<Rightarrow> nat \<Rightarrow> hit_map \<Rightarrow> string \<Rightarrow> hit_map"
where
  "processPattern pm normalizedText processed endIndex hits pat =
     (let startIndex = int endIndex - int (length pat) + 1 in
      case map_of pm pat of
        None \<Rightarrow> hits
      | Some info \<Rightarrow>
          if \<not> hasValidWordBoundaries normalizedText
                 \<lparr>start = startIndex, stop = int endIndex + 1, pattern = pat\<rparr>
          then hits
          else foldl (recordVariation normalizedText processed pat info startIndex (int endIndex))
                 hits (variations info))"

text \<open>The handler of the stream's \<open>data\<close> event.\<close>

definition onData :: "pattern_map \<times> string list \<Rightarrow> scan_state \<Rightarrow> string \<Rightarrow> scan_state" where
  "onData automaton st chunk =
     (let searchText = previousOverlap st @ chunk;
          normalizedText = normalizeText searchText;
          matches = search (snd automaton) normalizedText
      in \<lparr>prospectHits =
            foldl (\<lambda>hits (endIndex, matchedPatterns).
                     foldl (processPattern (fst automaton) normalizedText (processedBytes st) endIndex)
                       hits matchedPatterns)
              (prospectHits st) matches,
          processedBytes = processedBytes st + length chunk,
          previousOverlap =
            (if length searchText > OVERLAP_SIZE
             then slice searchText (- int OVERLAP_SIZE) (int (length searchText))
             else previousOverlap st)\<rparr>)"

definition initialState :: scan_state where
  "initialState = \<lparr>prospectHits = [], processedBytes = 0, previousOverlap = []\<rparr>"

section \<open>Classification of the hits of a document\<close>

text \<open>
  The match types \<open>'Name + Company'\<close>, \<open>'Name Only'\<close> and \<open>'Company Only'\<close>, and a match
  object; \<open>match_contexts\<close> stands for its field \<open>contexts\<close>.
\<close>

datatype match_kind = NameAndCompany | NameOnly | CompanyOnly

record match_result =
  prospect_id :: string
  prospect_name :: string
  company_name :: string
  sec_filing :: string
  sec_url :: string
  match_date :: string
  match_type :: match_kind
  confidence :: int
  match_contexts :: "context_info list"

text \<open>
  What the run takes from its surroundings: the date \<open>new Date()\<close> gives, as
  \<open>YYYY-MM-DD\<close>, and \<open>path.resolve\<close>.
\<close>

record environment =
  today :: string
  resolvePath :: "string \<Rightarrow> string"

text \<open>\<open>parseInt(cik, 10)\<close> of a string of digits, printed again: leading zeros go.\<close>

definition numericCik :: "string \<Rightarrow> string" where
  "numericCik cik = (if dropWhile (\<lambda>c. c = CHR ''0'') cik = [] then ''0''
                     else dropWhile (\<lambda>c. c = CHR ''0'') cik)"

text \<open>\<open>createSECUrl\<close>: the file name must match \<open>/^(\d{10})-(\d{2})-(\d{6})\.txt$/\<close>.\<close>

definition createSECUrl :: "string \<Rightarrow> string option" where
  "createSECUrl filename =
     (let cik = take 10 filename; year = take 2 (drop 11 filename);
          sequence = take 6 (drop 14 filename)
      in if length filename = 24 \<and> list_all isNumber cik \<and> filename ! 10 = CHR ''-'' \<and>
            list_all isNumber year \<and> filename ! 13 = CHR ''-'' \<and> list_all isNumber sequence \<and>
            drop 20 filename = ''.txt''
         then Some (''https://www.sec.gov/Archives/edgar/data/'' @ numericCik cik @ ''/'' @
                    cik @ year @ sequence @ ''.txt'')
         else None)"

text \<open>
  \<open>{...baseMatch, match_type, confidence, contexts}\<close>, for the prospect \<open>p\<close> found
  under the id \<open>pid\<close>.
\<close>

definition makeMatch ::
  "environment \<Rightarrow> prospect \<Rightarrow> string \<Rightarrow> string \<Rightarrow> match_kind \<Rightarrow> int \<Rightarrow> context_info list \<Rightarrow> match_result"
where
  "makeMatch env p pid filename kind conf ctxs =
     \<lparr>prospect_id = pid, prospect_name = name p, company_name = company p,
      sec_filing = filename,
      sec_url = (case createSECUrl filename of
                   Some u \<Rightarrow> u
                 | None \<Rightarrow> ''file://'' @ resolvePath env filename),
      match_date = today env,
      match_type = kind, confidence = conf, match_contexts = ctxs\<rparr>"

text \<open>
  The body of the loop of \<open>generateMatchResults\<close>, for one entry of \<open>prospectHits\<close>:
  no match when the prospect is not found, when only \<open>companyHit\<close> is set or when no
  flag is set.
\<close>

definition generateMatchResult ::
  "environment \<Rightarrow> prospect list \<Rightarrow> string \<Rightarrow> string \<times> hit \<Rightarrow> match_result list"
where
  "generateMatchResult env prospects filename entry =
     (case find (\<lambda>p. ident p = fst entry) prospects of
        None \<Rightarrow> []
      | Some p \<Rightarrow>
          let hits = snd entry in
          if nameHit hits \<and> companyHit hits
          then [makeMatch env p (fst entry) filename NameAndCompany 95
                  (slice (contexts hits) 0 3)]
          else if nameHit hits
          then [makeMatch env p (fst entry) filename NameOnly 75
                  (slice (filter (\<lambda>c. context_type c = name_pattern) (contexts hits)) 0 2)]
          else [])"

definition generateMatchResults ::
  "environment \<Rightarrow> prospect list \<Rightarrow> string \<Rightarrow> hit_map \<Rightarrow> match_result list"
where
  "generateMatchResults env prospects filename hits =
     concat (map (generateMatchResult env prospects filename) hits)"

text \<open>
  What reading a file does: \<open>fs.statSync\<close> throws, or the stream delivers its chunks
  in order and then emits \<open>end\<close> or \<open>error\<close>.
\<close>

datatype stream_end = StreamEnd | StreamError

datatype file_source = StatError | Stream "string list" stream_end

text \<open>How a promise is settled.\<close>

datatype 'a settled = Resolved 'a | Rejected

text \<open>
  How the promise of \<open>processFileLinear\<close> is settled. Its executor calls \<open>resolve\<close>
  only: in the handler of \<open>end\<close> with the matches, in the handler of \<open>error\<close> and in
  the \<open>catch\<close> around \<open>fs.statSync\<close> with the empty list.
\<close>

definition processFileLinear ::
  "environment \<Rightarrow> prospect list \<Rightarrow> pattern_map \<times> string list \<Rightarrow> file_source \<Rightarrow> string \<Rightarrow>
   match_result list settled"
where
  "processFileLinear env prospects automaton source filename =
     (case source of
        StatError \<Rightarrow> Resolved []
      | Stream chunks e \<Rightarrow>
          (case e of
             StreamEnd \<Rightarrow>
               Resolved (generateMatchResults env prospects filename
                 (prospectHits (foldl (onData automaton) initialState chunks)))
           | StreamError \<Rightarrow> Resolved []))"

section \<open>Deduplication\<close>

definition dedupKey :: "match_result \<Rightarrow> string" where
  "dedupKey m = prospect_id m @ '':'' @ sec_filing m"

text \<open>The body of the loop of \<open>deduplicateMatches\<close>; \<open>seen\<close> is a \<open>Map\<close> in insertion order.\<close>

definition keepBest :: "(string \<times> match_result) list \<Rightarrow> match_result \<Rightarrow> (string \<times> match_result) list" where
  "keepBest seen m =
     (case map_of seen (dedupKey m) of
        None \<Rightarrow> AList.update (dedupKey m) m seen
      | Some existing \<Rightarrow>
          if confidence m > confidence existing \<or>
             (confidence m = confidence existing \<and> match_type m = NameAndCompany)
          then AList.update (dedupKey m) m seen
          else seen)"

fun typeOrder :: "match_kind \<Rightarrow> int" where
  "typeOrder NameAndCompany = 3"
| "typeOrder NameOnly = 2"
| "typeOrder CompanyOnly = 1"

text \<open>The comparison function given to \<open>sort\<close>.\<close>

definition compareMatches :: "match_result \<Rightarrow> match_result \<Rightarrow> int" where
  "compareMatches a b =
     (if confidence b \<noteq> confidence a then confidence b - confidence a
      else typeOrder (match_type b) - typeOrder (match_type a))"

text \<open>
  \<open>Array.prototype.sort\<close> with a comparison function: the sort is stable, so its result
  is that of the stable insertion sort.
\<close>

fun insertBy :: "('a \<Rightarrow> 'a \<Rightarrow> int) \<Rightarrow> 'a \<Rightarrow> 'a list \<Rightarrow> 'a list" where
  "insertBy cmp x [] = [x]"
| "insertBy cmp x (y # ys) = (if cmp x y \<le> 0 then x # y # ys else y # insertBy cmp x ys)"

definition sortBy :: "('a \<Rightarrow> 'a \<Rightarrow> int) \<Rightarrow> 'a list \<Rightarrow> 'a list" where
  "sortBy cmp xs = foldr (insertBy cmp) xs []"

definition deduplicateMatches :: "match_result list \<Rightarrow> match_result list" where
  "deduplicateMatches matches = sortBy compareMatches (map snd (foldl keepBest [] matches))"

section \<open>The loop over the documents\<close>

record sec_file =
  path :: string
  originalname :: string

definition BATCH_SIZE :: nat where
  "BATCH_SIZE = 50"

text \<open>The memory cleanup: \<open>match.contexts = [match.contexts[0]]\<close> when there is a context.\<close>

definition keepFirstContext :: "match_result \<Rightarrow> match_result" where
  "keepFirstContext m =
     (if length (match_contexts m) > 0 then m\<lparr>match_contexts := [match_contexts m ! 0]\<rparr> else m)"

text \<open>
  The \<open>for\<close> loop of \<open>processMatchingLinear\<close> from index \<open>i\<close> on, \<open>allMatches\<close> being
  what the files before gave; \<open>files\<close> says what reading each path does. A rejected
  promise would be caught and the loop would go on with the next file. Progress events
  and log lines are left out.
\<close>

fun fileLoop ::
  "environment \<Rightarrow> (string \<Rightarrow> file_source) \<Rightarrow> prospect list \<Rightarrow> pattern_map \<times> string list \<Rightarrow>
   nat \<Rightarrow> match_result list \<Rightarrow> sec_file list \<Rightarrow> match_result list"
where
  "fileLoop env files prospects automaton i allMatches [] = allMatches"
| "fileLoop env files prospects automaton i allMatches (f # rest) =
     (case processFileLinear env prospects automaton (files (path f)) (originalname f) of
        Resolved fileMatches \<Rightarrow>
          let allMatches1 = allMatches @ fileMatches;
              allMatches2 = (if (i + 1) mod BATCH_SIZE = 0 then map keepFirstContext allMatches1
                             else allMatches1)
          in fileLoop env files prospects automaton (i + 1) allMatches2 rest
      | Rejected \<Rightarrow> fileLoop env files prospects automaton (i + 1) allMatches rest)"

definition processMatchingLinear ::
  "environment \<Rightarrow> (string \<Rightarrow> file_source) \<Rightarrow> prospect list \<Rightarrow> sec_file list \<Rightarrow> match_result list"
where
  "processMatchingLinear env files prospects secFiles =
     deduplicateMatches (fileLoop env files prospects (buildAutomaton prospects) 0 [] secFiles)"

section \<open>Notions the statements use\<close>

text \<open>
  The registrations of a prospect list: one triple of kind, prospect id and variation
  for every variation \<open>buildAutomaton\<close> derives, in the order it derives them.
\<close>

definition prospectRegistrations :: "prospect \<Rightarrow> (pattern_kind \<times> string \<times> variation) list" where
  "prospectRegistrations p =
     map (\<lambda>v. (name_pattern, ident p, v)) (generateNamePatterns (name p)) @
     map (\<lambda>v. (company_pattern, ident p, v)) (generateCompanyPatterns (company p))"

definition registrations :: "prospect list \<Rightarrow> (pattern_kind \<times> string \<times> variation) list" where
  "registrations prospects = concat (map prospectRegistrations prospects)"

definition registrationText :: "pattern_kind \<times> string \<times> variation \<Rightarrow> string" where
  "registrationText r = pattern_text (snd (snd r))"

definition registrationsOf :: "string \<Rightarrow> prospect list \<Rightarrow> (pattern_kind \<times> string \<times> variation) list" where
  "registrationsOf t prospects = filter (\<lambda>r. registrationText r = t) (registrations prospects)"

definition registerOne ::
  "pattern_map \<times> string list \<Rightarrow> pattern_kind \<times> string \<times> variation \<Rightarrow> pattern_map \<times> string list" where
  "registerOne st r = registerVariation (fst r) (fst (snd r)) st (snd (snd r))"

definition entryOf :: "(pattern_kind \<times> string \<times> variation) list \<Rightarrow> pattern_info option" where
  "entryOf rs =
     (case rs of
        [] \<Rightarrow> None
      | r # _ \<Rightarrow> Some \<lparr>ptype = fst r, prospectIds = map (\<lambda>r. fst (snd r)) rs,
                       variations = map (\<lambda>r. tagVariation (fst (snd r)) (snd (snd r))) rs\<rparr>)"

definition registered :: "(pattern_kind \<times> string \<times> variation) list \<Rightarrow> pattern_map \<times> string list \<Rightarrow> bool" where
  "registered rs st \<longleftrightarrow>
     map fst (fst st) = snd st \<and> distinct (snd st) \<and>
     set (snd st) = registrationText ` set rs \<and>
     (\<forall>t. map_of (fst st) t = entryOf (filter (\<lambda>r. registrationText r = t) rs))"

text \<open>\<open>precedes a b\<close>: the comparison function puts \<open>a\<close> before \<open>b\<close> or ranks them equal.\<close>

definition precedes :: "match_result \<Rightarrow> match_result \<Rightarrow> bool" where
  "precedes a b = (compareMatches a b \<le> 0)"

definition keyed :: "(string \<times> match_result) list \<Rightarrow> bool" where
  "keyed seen \<longleftrightarrow> distinct (map fst seen) \<and> (\<forall>e \<in> set seen. fst e = dedupKey (snd e))"

text \<open>Two prospects of which one's name and the other's company give the same pattern text.\<close>

definition sharingProspects :: "prospect list" where
  "sharingProspects =
     [\<lparr>ident = ''1'', name = ''John Smith'', company = ''Acme Corp''\<rparr>,
      \<lparr>ident = ''2'', name = ''Jane Doe'', company = ''John Smith LLC''\<rparr>]"

text \<open>\<open>bounded hits\<close>: every hit record holds at most one context.\<close>

definition bounded :: "hit_map \<Rightarrow> bool" where
  "bounded hits = (\<forall>e \<in> set hits. length (contexts (snd e)) \<le> 1)"

definition resolved :: "'a list settled \<Rightarrow> 'a list" where
  "resolved r = (case r of Resolved x \<Rightarrow> x | Rejected \<Rightarrow> [])"

text \<open>
  \<open>bestOf ms r\<close>: \<open>r\<close> is a record of \<open>ms\<close> that no record of \<open>ms\<close> with the same key
  beats: none has a higher confidence, and if one of the same confidence is of type
  \<open>NameAndCompany\<close> then so is \<open>r\<close>.
\<close>

definition bestOf :: "match_result list \<Rightarrow> match_result \<Rightarrow> bool" where
  "bestOf ms r \<longleftrightarrow>
     r \<in> set ms \<and>
     (\<forall>m \<in> set ms. dedupKey m = dedupKey r \<longrightarrow>
        confidence m \<le> confidence r \<and>
        (confidence m = confidence r \<and> match_type m = NameAndCompany \<longrightarrow>
           match_type r = NameAndCompany))"

definition bestSeen :: "match_result list \<Rightarrow> (string \<times> match_result) list \<Rightarrow> bool" where
  "bestSeen ms seen \<longleftrightarrow>
     keyed seen \<and> fst ` set seen = dedupKey ` set ms \<and> (\<forall>e \<in> set seen. bestOf ms (snd e))"

text \<open>
  The prospect of the scenario with a middle initial, the automaton built for it, and
  the context recorded for the text \<open>John Smith signed.\<close>
\<close>

definition smithProspects :: "prospect list" where
  "smithProspects = [\<lparr>ident = ''1'', name = ''John A. Smith'', company = ''Acme Holdings''\<rparr>]"

definition smithAutomaton :: "pattern_map \<times> string list" where
  "smithAutomaton =
     ([(''john smith'',
        \<lparr>ptype = name_pattern, prospectIds = [''1'', ''1''],
         variations =
           [\<lparr>pattern_text = ''john smith'', vtype = first_last_exact, firstName = ''john'',
              lastName = ''smith'', allowInitial = False, prospectId = ''1''\<rparr>,
            \<lparr>pattern_text = ''john smith'', vtype = first_last_with_initial, firstName = ''john'',
              lastName = ''smith'', allowInitial = True, prospectId = ''1''\<rparr>]\<rparr>),
       (''acme holdings'',
        \<lparr>ptype = company_pattern, prospectIds = [''1''],
         variations =
           [\<lparr>pattern_text = ''acme holdings'', vtype = company_root, firstName = [],
              lastName = [], allowInitial = False, prospectId = ''1''\<rparr>]\<rparr>)],
      [''john smith'', ''acme holdings''])"

definition adjacentContext :: context_info where
  "adjacentContext = \<lparr>context_pattern = ''john smith'', context_type = name_pattern,
     snippet = ''john smith signed'', position = 0\<rparr>"

text \<open>
  Two matches of different prospects in different documents whose keys
  \<open>prospect_id:sec_filing\<close> are the same string.
\<close>

definition collidingFirst :: match_result where
  "collidingFirst =
     \<lparr>prospect_id = ''7'', prospect_name = ''Aaron Davis'', company_name = ''Davis Corp'',
      sec_filing = ''a:b.txt'', sec_url = ''file:///data/a:b.txt'', match_date = ''2025-09-01'',
      match_type = NameOnly, confidence = 75, match_contexts = []\<rparr>"

definition collidingSecond :: match_result where
  "collidingSecond =
     \<lparr>prospect_id = ''7:a'', prospect_name = ''Jane Doe'', company_name = ''Doe Partners'',
      sec_filing = ''b.txt'', sec_url = ''file:///data/b.txt'', match_date = ''2025-09-01'',
      match_type = NameAndCompany, confidence = 95, match_contexts = []\<rparr>"

text \<open>
  A run over two documents: reading the first fails after one chunk, the second is read
  to its end.
\<close>

definition exampleEnvironment :: environment where
  "exampleEnvironment = \<lparr>today = ''2025-09-01'', resolvePath = (\<lambda>f. ''/data/'' @ f)\<rparr>"

definition exampleFiles :: "string \<Rightarrow> file_source" where
  "exampleFiles p = (if p = ''/uploads/good'' then Stream [''John Smith signed.''] StreamEnd
                     else Stream [''John Smith si''] StreamError)"

definition badFile :: sec_file where
  "badFile = \<lparr>path = ''/uploads/bad'', originalname = ''bad.txt''\<rparr>"

definition goodFile :: sec_file where
  "goodFile = \<lparr>path = ''/uploads/good'', originalname = ''good.txt''\<rparr>"

text \<open>Two matches of one prospect in one document.\<close>

definition lowerMatch :: match_result where
  "lowerMatch =
     \<lparr>prospect_id = ''7'', prospect_name = ''Aaron Davis'', company_name = ''Davis Corp'',
      sec_filing = ''a.txt'', sec_url = ''file:///data/a.txt'', match_date = ''2025-09-01'',
      match_type = NameOnly, confidence = 75, match_contexts = []\<rparr>"

definition higherMatch :: match_result where
  "higherMatch =
     \<lparr>prospect_id = ''7'', prospect_name = ''Aaron Davis'', company_name = ''Davis Corp'',
      sec_filing = ''a.txt'', sec_url = ''file:///data/a.txt'', match_date = ''2025-09-01'',
      match_type = NameAndCompany, confidence = 95, match_contexts = []\<rparr>"

text \<open>
  A document of \<open>CHUNK_SIZE\<close> + 1046589 characters: spaces, then \<open>John Smith signed.\<close>
  The stream delivers it as \<open>spaces CHUNK_SIZE\<close> and \<open>paddedChunk\<close>.
\<close>

definition spaces :: "nat \<Rightarrow> string" where
  "spaces n = replicate n CHR '' ''"

definition paddedChunk :: string where
  "paddedChunk = spaces 1046571 @ ''John Smith signed.''"

text \<open>
  The prospect \<open>Aaron Davis\<close> of \<open>Davis Corp\<close>, the automaton built for it, and the
  contexts recorded for two documents.
\<close>

definition davisProspect :: prospect where
  "davisProspect = \<lparr>ident = ''1'', name = ''Aaron Davis'', company = ''Davis Corp''\<rparr>"

definition davisAutomaton :: "pattern_map \<times> string list" where
  "davisAutomaton =
     ([(''aaron davis'',
        \<lparr>ptype = name_pattern, prospectIds = [''1'', ''1''],
         variations =
           [\<lparr>pattern_text = ''aaron davis'', vtype = first_last_exact, firstName = ''aaron'',
              lastName = ''davis'', allowInitial = False, prospectId = ''1''\<rparr>,
            \<lparr>pattern_text = ''aaron davis'', vtype = first_last_with_initial, firstName = ''aaron'',
              lastName = ''davis'', allowInitial = True, prospectId = ''1''\<rparr>]\<rparr>),
       (''davis'',
        \<lparr>ptype = company_pattern, prospectIds = [''1''],
         variations =
           [\<lparr>pattern_text = ''davis'', vtype = company_root, firstName = [],
              lastName = [], allowInitial = False, prospectId = ''1''\<rparr>]\<rparr>)],
      [''aaron davis'', ''davis''])"

definition davisContext :: context_info where
  "davisContext = \<lparr>context_pattern = ''aaron davis'', context_type = name_pattern,
     snippet = ''aaron davis joined davis corp'', position = 0\<rparr>"

definition mentionedContext :: context_info where
  "mentionedContext = \<lparr>context_pattern = ''davis'', context_type = company_pattern,
     snippet = ''mark davis john davis and dav'', position = 5\<rparr>"

text \<open>Two prospects of the same name, the automaton built for them, and a context.\<close>

definition janeProspects :: "prospect list" where
  "janeProspects =
     [\<lparr>ident = ''1'', name = ''Jane Davis'', company = ''Acme Corp''\<rparr>,
      \<lparr>ident = ''2'', name = ''Jane Davis'', company = ''Beta Partners''\<rparr>]"

definition janeAutomaton :: "pattern_map \<times> string list" where
  "janeAutomaton =
     ([(''jane davis'',
        \<lparr>ptype = name_pattern, prospectIds = [''1'', ''1'', ''2'', ''2''],
         variations =
           [\<lparr>pattern_text = ''jane davis'', vtype = first_last_exact, firstName = ''jane'',
              lastName = ''davis'', allowInitial = False, prospectId = ''1''\<rparr>,
            \<lparr>pattern_text = ''jane davis'', vtype = first_last_with_initial, firstName = ''jane'',
              lastName = ''davis'', allowInitial = True, prospectId = ''1''\<rparr>,
            \<lparr>pattern_text = ''jane davis'', vtype = first_last_exact, firstName = ''jane'',
              lastName = ''davis'', allowInitial = False, prospectId = ''2''\<rparr>,
            \<lparr>pattern_text = ''jane davis'', vtype = first_last_with_initial, firstName = ''jane'',
              lastName = ''davis'', allowInitial = True, prospectId = ''2''\<rparr>]\<rparr>),
       (''acme'',
        \<lparr>ptype = company_pattern, prospectIds = [''1''],
         variations =
           [\<lparr>pattern_text = ''acme'', vtype = company_root, firstName = [],
              lastName = [], allowInitial = False, prospectId = ''1''\<rparr>]\<rparr>),
       (''beta partners'',
        \<lparr>ptype = company_pattern, prospectIds = [''2''],
         variations =
           [\<lparr>pattern_text = ''beta partners'', vtype = company_root, firstName = [],
              lastName = [], allowInitial = False, prospectId = ''2''\<rparr>]\<rparr>)],
      [''jane davis'', ''acme'', ''beta partners''])"

definition janeContext :: context_info where
  "janeContext = \<lparr>context_pattern = ''jane davis'', context_type = name_pattern,
     snippet = ''jane davis resigned'', position = 0\<rparr>"

text \<open>
  \<open>ownedBy prospects pm\<close>: every variation of every entry of the pattern map carries the
  id of a prospect of the list.
\<close>

definition ownedBy :: "prospect list \<Rightarrow> pattern_map \<Rightarrow> bool" where
  "ownedBy prospects pm \<longleftrightarrow>
     (\<forall>t info. map_of pm t = Some info \<longrightarrow>
        (\<forall>v \<in> set (variations info). prospectId v \<in> ident ` set prospects))"

text \<open>Three prospects, and a hit map with one record of each kind and one of an unknown id.\<close>

definition classifiedProspects :: "prospect list" where
  "classifiedProspects =
     [\<lparr>ident = ''7'', name = ''Aaron Davis'', company = ''Davis Corp''\<rparr>,
      \<lparr>ident = ''8'', name = ''Jane Roe'', company = ''Roe Partners''\<rparr>,
      \<lparr>ident = ''9'', name = ''Sam Poe'', company = ''Poe Mills''\<rparr>]"

definition classifiedHits :: hit_map where
  "classifiedHits =
     [(''7'', \<lparr>nameHit = True, companyHit = True, contexts = []\<rparr>),
      (''8'', \<lparr>nameHit = True, companyHit = False, contexts = []\<rparr>),
      (''9'', \<lparr>nameHit = False, companyHit = True, contexts = []\<rparr>),
      (''10'', \<lparr>nameHit = True, companyHit = True, contexts = []\<rparr>)]"

section \<open>Properties of the classification\<close>

lemma slice_0: "slice xs 0 (int n) = take n xs"
  by (simp add: slice_def sliceIndex_def min_def)

lemma find_ident_None:
  "(find (\<lambda>p. ident p = pid) prospects = None) = (pid \<notin> ident ` set prospects)"
  by (auto simp: find_None_iff)

text \<open>
  Claim C1. For every hit record of a prospect of the list, \<open>generateMatchResults\<close>
  gives exactly one match, of type \<open>NameAndCompany\<close> with confidence 95, when both
  \<open>nameHit\<close> and \<open>companyHit\<close> are set, exactly one match, of type \<open>NameOnly\<close> with
  confidence 75, when only \<open>nameHit\<close> is set, and no match otherwise; in particular a
  record with only \<open>companyHit\<close> set gives none. For a whole hit map it gives the
  matches of the records one after the other, in the order of the map: prospect id,
  type and confidence as above for a record of a prospect of the list, nothing for a
  record whose prospect is not in the list.
\<close>

theorem classification_by_hit_flags:
  assumes "find (\<lambda>p. ident p = pid) prospects = Some p"
  shows "(nameHit h \<and> companyHit h \<longrightarrow>
            (\<exists>m. generateMatchResults env prospects filename [(pid, h)] = [m] \<and>
                 match_type m = NameAndCompany \<and> confidence m = 95 \<and>
                 prospect_id m = pid \<and> sec_filing m = filename)) \<and>
         (nameHit h \<and> \<not> companyHit h \<longrightarrow>
            (\<exists>m. generateMatchResults env prospects filename [(pid, h)] = [m] \<and>
                 match_type m = NameOnly \<and> confidence m = 75 \<and>
                 prospect_id m = pid \<and> sec_filing m = filename)) \<and>
         (\<not> nameHit h \<longrightarrow> generateMatchResults env prospects filename [(pid, h)] = []) \<and>
         map (\<lambda>m. (prospect_id m, match_type m, confidence m))
             (generateMatchResults env prospects filename hits) =
           concat (map (\<lambda>(i, r). if i \<notin> ident ` set prospects then []
                                  else if nameHit r \<and> companyHit r then [(i, NameAndCompany, 95)]
                                  else if nameHit r then [(i, NameOnly, 75)]
                                  else []) hits)"
proof -
  have one: "map (\<lambda>m. (prospect_id m, match_type m, confidence m))
               (generateMatchResult env prospects filename e) =
             (\<lambda>(i, r). if i \<notin> ident ` set prospects then []
                        else if nameHit r \<and> companyHit r then [(i, NameAndCompany, 95)]
                        else if nameHit r then [(i, NameOnly, 75)]
                        else []) e" for e
  proof (cases "find (\<lambda>p. ident p = fst e) prospects")
    case None
    then have "fst e \<notin> ident ` set prospects" by (simp add: find_ident_None)
    then show ?thesis using None
      by (simp add: generateMatchResult_def case_prod_beta)
  next
    case (Some q)
    then have "fst e \<in> ident ` set prospects"
      using find_ident_None [of "fst e" prospects] by simp
    then show ?thesis using Some
      by (simp add: generateMatchResult_def makeMatch_def case_prod_beta)
  qed
  have all: "map (\<lambda>m. (prospect_id m, match_type m, confidence m))
             (generateMatchResults env prospects filename hits) =
           concat (map (\<lambda>(i, r). if i \<notin> ident ` set prospects then []
                                  else if nameHit r \<and> companyHit r then [(i, NameAndCompany, 95)]
                                  else if nameHit r then [(i, NameOnly, 75)]
                                  else []) hits)"
    unfolding generateMatchResults_def map_concat map_map comp_def one ..
  have single: "generateMatchResults env prospects filename [(pid, h)] =
      generateMatchResult env prospects filename (pid, h)"
    by (simp add: generateMatchResults_def)
  show ?thesis
    unfolding single using assms all by (simp add: generateMatchResult_def makeMatch_def)
qed

theorem classification_by_hit_flags_witness:
  "find (\<lambda>p. ident p = ''7'') classifiedProspects =
     Some \<lparr>ident = ''7'', name = ''Aaron Davis'', company = ''Davis Corp''\<rparr> \<and>
   (\<exists>m. generateMatchResults exampleEnvironment classifiedProspects ''filing.txt''
          [(''7'', \<lparr>nameHit = True, companyHit = True, contexts = []\<rparr>)] = [m] \<and>
        match_type m = NameAndCompany \<and> confidence m = 95 \<and>
        prospect_id m = ''7'' \<and> sec_filing m = ''filing.txt'') \<and>
   generateMatchResults exampleEnvironment classifiedProspects ''filing.txt''
          [(''7'', \<lparr>nameHit = False, companyHit = True, contexts = []\<rparr>)] = [] \<and>
   map (\<lambda>m. (prospect_id m, match_type m, confidence m))
       (generateMatchResults exampleEnvironment classifiedProspects ''filing.txt'' classifiedHits) =
     [(''7'', NameAndCompany, 95), (''8'', NameOnly, 75)]"
proof -
  have f: "find (\<lambda>p. ident p = ''7'') classifiedProspects =
     Some \<lparr>ident = ''7'', name = ''Aaron Davis'', company = ''Davis Corp''\<rparr>"
    by (simp add: classifiedProspects_def)
  have e: "concat (map (\<lambda>(i, r). if i \<notin> ident ` set classifiedProspects then []
                                  else if nameHit r \<and> companyHit r then [(i, NameAndCompany, 95)]
                                  else if nameHit r then [(i, NameOnly, 75)]
                                  else []) classifiedHits) =
     [(''7'', NameAndCompany, 95::int), (''8'', NameOnly, 75)]"
    by (simp add: classifiedProspects_def classifiedHits_def)
  show ?thesis
    using f e
      classification_by_hit_flags [OF f, of "\<lparr>nameHit = True, companyHit = True, contexts = []\<rparr>"
        exampleEnvironment "''filing.txt''" classifiedHits]
      classification_by_hit_flags [OF f, of "\<lparr>nameHit = False, companyHit = True, contexts = []\<rparr>"
        exampleEnvironment "''filing.txt''" classifiedHits]
    by simp
qed

section \<open>Properties of the pattern compilation\<close>

lemma length_trim_le: "length (trim s) \<le> length s"
proof -
  have "length (trim s) \<le> length (dropWhile isSpace s)"
    unfolding trim_def by (metis length_rev length_dropWhile_le)
  also have "\<dots> \<le> length s" by (rule length_dropWhile_le)
  finally show ?thesis .
qed

lemma length_collapseSpaces_le: "length (collapseSpaces s) \<le> length s"
proof (induction s rule: collapseSpaces.induct)
  case 1
  show ?case by simp
next
  case (2 c cs)
  show ?case
  proof (cases "isSpace c")
    case True
    have "length (collapseSpaces (dropWhile isSpace cs)) \<le> length (dropWhile isSpace cs)"
      using 2(1) [OF True] .
    also have "\<dots> \<le> length cs" by (rule length_dropWhile_le)
    finally show ?thesis using True by simp
  next
    case False
    then show ?thesis using 2(2) by simp
  qed
qed

lemma length_removeLegalSuffixes_le: "length (removeLegalSuffixes prev s) \<le> length s"
proof (induction prev s rule: removeLegalSuffixes.induct)
  case (1 prev)
  show ?case by simp
next
  case (2 prev c cs)
  show ?case
  proof (cases "matchLegalSuffix prev (c # cs)")
    case None
    then show ?thesis using 2(1) by simp
  next
    case (Some w)
    have "length (removeLegalSuffixes (Some (last w)) (drop (length w) (c # cs)))
            \<le> length (drop (length w) (c # cs))"
      using 2(2) [OF Some] .
    also have "\<dots> \<le> length (c # cs)" by simp
    finally show ?thesis using Some by simp
  qed
qed

lemma length_companyRoot_le: "length (companyRoot s) \<le> length s"
  unfolding companyRoot_def
  by (meson length_trim_le length_collapseSpaces_le length_removeLegalSuffixes_le order_trans)

text \<open>
  Claim C8. For every company name, no company pattern is generated when the
  normalized name with the legal suffixes removed (the root) is shorter than 3
  characters, and exactly one pattern, whose text is the root, when the root has at
  least 3 characters.
\<close>

theorem company_pattern_iff_root_long_enough:
  "generateCompanyPatterns companyName =
     (if length (companyRoot (normalizeText companyName)) < 3 then []
      else [\<lparr>pattern_text = companyRoot (normalizeText companyName), vtype = company_root,
              firstName = [], lastName = [], allowInitial = False\<rparr>])"
proof -
  have "length (companyRoot (normalizeText companyName)) \<le> length (normalizeText companyName)"
    by (rule length_companyRoot_le)
  then show ?thesis
    by (auto simp: generateCompanyPatterns_def Let_def)
qed

lemma tokens_first_last:
  assumes "2 \<le> length ts"
  shows "ts = hd ts # butlast (tl ts) @ [last ts]"
proof -
  from assms obtain a b rest where "ts = a # b # rest"
    by (cases ts; cases "tl ts") auto
  then show ?thesis by simp
qed

lemma two_valid_tokens:
  assumes "2 \<le> length ts" "2 \<le> length (hd ts)" "2 \<le> length (last ts)"
  shows "2 \<le> length (filter (\<lambda>t. 2 \<le> length t) ts)"
proof -
  have "ts = hd ts # butlast (tl ts) @ [last ts]" using assms(1) by (rule tokens_first_last)
  then have "filter (\<lambda>t. 2 \<le> length t) ts =
      filter (\<lambda>t. 2 \<le> length t) (hd ts # butlast (tl ts) @ [last ts])" by simp
  also have "\<dots> = hd ts # filter (\<lambda>t. 2 \<le> length t) (butlast (tl ts)) @ [last ts]"
    using assms(2,3) by simp
  finally show ?thesis by simp
qed

text \<open>
  Claim C4. A name pattern is generated exactly when the normalized name has at least
  two tokens and its first and its last token have at least 2 characters each. So a
  pattern is generated only when at least two tokens have 2 characters or more, and a
  name with fewer than two such tokens gives no pattern. When a pattern is generated,
  the variations have one pattern text, the first token, a space and the last token;
  the tokens between them play no part.
\<close>

theorem name_pattern_needs_two_valid_tokens:
  "(generateNamePatterns fullName \<noteq> [] \<longleftrightarrow>
      2 \<le> length (nameTokens fullName) \<and> 2 \<le> length (hd (nameTokens fullName)) \<and>
      2 \<le> length (last (nameTokens fullName))) \<and>
   (generateNamePatterns fullName \<noteq> [] \<longrightarrow>
      2 \<le> length (filter (\<lambda>t. 2 \<le> length t) (nameTokens fullName)) \<and>
      set (map pattern_text (generateNamePatterns fullName)) =
        {hd (nameTokens fullName) @ '' '' @ last (nameTokens fullName)}) \<and>
   (length (filter (\<lambda>t. 2 \<le> length t) (nameTokens fullName)) < 2 \<longrightarrow>
      generateNamePatterns fullName = [])"
proof -
  let ?ts = "nameTokens fullName"
  have idx: "2 \<le> length ?ts \<Longrightarrow> ?ts ! 0 = hd ?ts \<and> ?ts ! (length ?ts - 1) = last ?ts"
    by (cases ?ts) (auto simp: last_conv_nth)
  have iff: "generateNamePatterns fullName \<noteq> [] \<longleftrightarrow>
      2 \<le> length ?ts \<and> 2 \<le> length (hd ?ts) \<and> 2 \<le> length (last ?ts)"
    using idx by (auto simp: generateNamePatterns_def Let_def)
  have texts: "generateNamePatterns fullName \<noteq> [] \<Longrightarrow>
      set (map pattern_text (generateNamePatterns fullName)) = {hd ?ts @ '' '' @ last ?ts}"
    using idx by (auto simp: generateNamePatterns_def Let_def split: if_splits)
  have valid: "generateNamePatterns fullName \<noteq> [] \<Longrightarrow>
      2 \<le> length (filter (\<lambda>t. 2 \<le> length t) ?ts)"
    using iff two_valid_tokens by blast
  show ?thesis using iff texts valid by fastforce
qed

lemmas char_class_defs = isWordChar_def isLetter_def isNumber_def isSpace_def
  digits_def lowerLetters_def upperLetters_def lowerChar_def upperLatin1_def lowerLatin1_def
  baseChar_def accentedLetters_def baseLetters_def

lemmas normalize_defs = normalizeText_def normalizeTextChunk_def MAX_CHUNK_SIZE_def trim_def
  replacePunctuation_def toLowerCase_def removeAccents_def

text \<open>Accented letters, no-break spaces and letters without a base letter.\<close>

lemma eval_normalize_latin1:
  "normalizeText (''Jos'' @ [CHR 0xE9, CHR 0xA0, CHR 0xA0] @ ''N'' @ [CHR 0xDA, CHR 0xD1] @ ''ez & S'' @ [CHR 0xF8] @ ''n'') =
     ''jose nunez s n''"
  by (simp add: normalize_defs char_class_defs)

lemma eval_tokens_john: "nameTokens ''John A. Smith'' = [''john'', ''a'', ''smith'']"
  by (simp add: nameTokens_def normalize_defs char_class_defs)

lemma eval_tokens_j: "nameTokens ''J. Smith'' = [''j'', ''smith'']"
  by (simp add: nameTokens_def normalize_defs char_class_defs)

theorem name_pattern_needs_two_valid_tokens_witness:
  "generateNamePatterns ''John A. Smith'' \<noteq> [] \<and>
   2 \<le> length (filter (\<lambda>t. 2 \<le> length t) (nameTokens ''John A. Smith'')) \<and>
   set (map pattern_text (generateNamePatterns ''John A. Smith'')) = {''john smith''} \<and>
   length (filter (\<lambda>t. 2 \<le> length t) (nameTokens ''J. Smith'')) < 2 \<and>
   generateNamePatterns ''J. Smith'' = []"
  using name_pattern_needs_two_valid_tokens [of "''John A. Smith''"]
    name_pattern_needs_two_valid_tokens [of "''J. Smith''"]
  by (simp add: eval_tokens_john eval_tokens_j)

lemma eval_normalize_davis: "normalizeText ''Davis Corp'' = ''davis corp''"
  by (simp add: normalize_defs char_class_defs)

lemma eval_root_davis: "companyRoot ''davis corp'' = ''davis''"
  by (simp add: companyRoot_def matchLegalSuffix_def legalSuffixes_def wordBoundary_def
      isWordOpt_def headOpt_def trim_def char_class_defs)

lemma eval_normalize_ab: "normalizeText ''AB Inc.'' = ''ab inc''"
  by (simp add: normalize_defs char_class_defs)

lemma eval_root_ab: "companyRoot ''ab inc'' = ''ab''"
  by (simp add: companyRoot_def matchLegalSuffix_def legalSuffixes_def wordBoundary_def
      isWordOpt_def headOpt_def trim_def char_class_defs)

theorem company_pattern_iff_root_long_enough_witness:
  "generateCompanyPatterns ''Davis Corp'' =
     [\<lparr>pattern_text = ''davis'', vtype = company_root, firstName = [], lastName = [],
       allowInitial = False\<rparr>] \<and>
   generateCompanyPatterns ''AB Inc.'' = []"
  using company_pattern_iff_root_long_enough [of "''Davis Corp''"]
    company_pattern_iff_root_long_enough [of "''AB Inc.''"]
  by (simp add: eval_normalize_davis eval_root_davis eval_normalize_ab eval_root_ab)

section \<open>Properties of the boundary validation\<close>

lemma letter_not_boundary: "isLetter c \<Longrightarrow> \<not> isBoundaryChar c"
  by (auto simp: isBoundaryChar_def boundaryChars_def char_class_defs)

lemma number_not_boundary: "isNumber c \<Longrightarrow> \<not> isBoundaryChar c"
  by (auto simp: isBoundaryChar_def boundaryChars_def char_class_defs)

lemma underscore_not_boundary: "\<not> isBoundaryChar CHR ''_''"
  by (simp add: isBoundaryChar_def boundaryChars_def char_class_defs)

lemma letter_not_number: "isLetter c \<Longrightarrow> \<not> isNumber c"
  by (auto simp: char_class_defs)

lemma underscore_not_number: "\<not> isNumber CHR ''_''"
  by (simp add: char_class_defs)

text \<open>
  Claim C5. For every match within the text that \<open>hasValidWordBoundaries\<close> accepts:
  the character before the match is absent, a boundary character, or a digit followed
  by a letter as the first matched character; the character after the match is absent,
  a boundary character, or a digit preceded by a letter as the last matched character.
  In particular neither neighbour is a letter or an underscore, and a digit never
  adjoins a digit across an edge of the match.
\<close>

theorem accepted_match_edges:
  assumes ok: "hasValidWordBoundaries s m"
    and range: "0 \<le> start m" "start m < stop m" "stop m \<le> int (length s)"
  shows "(start m = 0 \<or> isBoundaryChar (s ! nat (start m - 1)) \<or>
            (isNumber (s ! nat (start m - 1)) \<and> isLetter (s ! nat (start m)))) \<and>
         (stop m = int (length s) \<or> isBoundaryChar (s ! nat (stop m)) \<or>
            (isLetter (s ! nat (stop m - 1)) \<and> isNumber (s ! nat (stop m)))) \<and>
         (0 < start m \<longrightarrow>
            \<not> isLetter (s ! nat (start m - 1)) \<and> s ! nat (start m - 1) \<noteq> CHR ''_'' \<and>
            \<not> (isNumber (s ! nat (start m - 1)) \<and> isNumber (s ! nat (start m)))) \<and>
         (stop m < int (length s) \<longrightarrow>
            \<not> isLetter (s ! nat (stop m)) \<and> s ! nat (stop m) \<noteq> CHR ''_'' \<and>
            \<not> (isNumber (s ! nat (stop m - 1)) \<and> isNumber (s ! nat (stop m))))"
proof -
  have before: "start m = 0 \<or> isBoundaryChar (s ! nat (start m - 1)) \<or>
            (isNumber (s ! nat (start m - 1)) \<and> isLetter (s ! nat (start m)))"
    using ok range
    by (auto simp: hasValidWordBoundaries_def beforeChar_def charAt_def testOpt_def Let_def
        split: if_splits option.splits)
  have after: "stop m = int (length s) \<or> isBoundaryChar (s ! nat (stop m)) \<or>
            (isLetter (s ! nat (stop m - 1)) \<and> isNumber (s ! nat (stop m)))"
    using ok range
    by (auto simp: hasValidWordBoundaries_def afterChar_def charAt_def testOpt_def Let_def
        split: if_splits option.splits)
  show ?thesis
    using before after letter_not_boundary number_not_boundary underscore_not_boundary
      letter_not_number underscore_not_number
    by (metis less_irrefl)
qed

theorem accepted_match_edges_witness:
  "hasValidWordBoundaries ''a john smith1'' \<lparr>start = 2, stop = 12, pattern = ''john smith''\<rparr> \<and>
   isBoundaryChar (''a john smith1'' ! 1) \<and>
   isLetter (''a john smith1'' ! 11) \<and> isNumber (''a john smith1'' ! 12) \<and>
   \<not> isLetter (''a john smith1'' ! 12)"
proof -
  have ok: "hasValidWordBoundaries ''a john smith1'' \<lparr>start = 2, stop = 12, pattern = ''john smith''\<rparr>"
    by (simp add: hasValidWordBoundaries_def beforeChar_def afterChar_def charAt_def testOpt_def
        isBoundaryChar_def boundaryChars_def char_class_defs)
  have cls: "isBoundaryChar (''a john smith1'' ! 1) \<and> isLetter (''a john smith1'' ! 11) \<and>
      isNumber (''a john smith1'' ! 12)"
    by (simp add: isBoundaryChar_def boundaryChars_def char_class_defs)
  show ?thesis
    using accepted_match_edges [OF ok] ok cls by simp
qed

section \<open>Properties of the automaton index\<close>

lemma registerProspect_registrations:
  "registerProspect st p = foldl registerOne st (prospectRegistrations p)"
  by (simp add: registerProspect_def prospectRegistrations_def foldl_map registerOne_def)

lemma foldl_concat_registrations:
  "foldl registerOne st (concat (map prospectRegistrations ps)) = foldl registerProspect st ps"
  by (induction ps arbitrary: st) (simp_all add: registerProspect_registrations)

lemma buildAutomaton_registrations:
  "buildAutomaton prospects = foldl registerOne ([], []) (registrations prospects)"
  by (simp add: buildAutomaton_def registrations_def foldl_concat_registrations)

lemma map_fst_map_entry: "map fst (AList.map_entry k f xs) = map fst xs"
  by (induction xs) auto

lemma map_entry_append_new:
  "k \<notin> fst ` set xs \<Longrightarrow> AList.map_entry k f (xs @ [(k, v)]) = xs @ [(k, f v)]"
  by (induction xs) auto

lemma entryOf_snoc:
  "entryOf (rs @ [r]) =
     Some (case entryOf rs of
        None \<Rightarrow> \<lparr>ptype = fst r, prospectIds = [fst (snd r)],
                 variations = [tagVariation (fst (snd r)) (snd (snd r))]\<rparr>
      | Some info \<Rightarrow> info\<lparr>prospectIds := prospectIds info @ [fst (snd r)],
                 variations := variations info @ [tagVariation (fst (snd r)) (snd (snd r))]\<rparr>)"
  by (cases rs) (simp_all add: entryOf_def)

lemma registered_step:
  assumes "registered rs st"
  shows "registered (rs @ [r]) (registerOne st r)"
proof -
  obtain pm pats where st: "st = (pm, pats)" by (cases st)
  let ?t = "registrationText r"
  let ?f = "\<lambda>info. info\<lparr>prospectIds := prospectIds info @ [fst (snd r)],
                 variations := variations info @ [tagVariation (fst (snd r)) (snd (snd r))]\<rparr>"
  from assms st have keys: "map fst pm = pats" and dist: "distinct pats"
    and texts: "set pats = registrationText ` set rs"
    and entries: "\<And>t. map_of pm t = entryOf (filter (\<lambda>r. registrationText r = t) rs)"
    by (simp_all add: registered_def)
  show ?thesis
  proof (cases "map_of pm ?t")
    case None
    then have new: "?t \<notin> fst ` set pm" by (simp add: map_of_eq_None_iff)
    then have notin: "?t \<notin> set pats" using keys by (metis set_map)
    have step: "registerOne st r =
        (pm @ [(?t, \<lparr>ptype = fst r, prospectIds = [fst (snd r)],
                 variations = [tagVariation (fst (snd r)) (snd (snd r))]\<rparr>)], pats @ [?t])"
      using None new
      by (simp add: registerOne_def registerVariation_def st registrationText_def
          map_entry_append_new Let_def)
    have none: "entryOf (filter (\<lambda>x. registrationText x = ?t) rs) = None"
      using None entries by simp
    have "\<And>t. map_of (pm @ [(?t, \<lparr>ptype = fst r, prospectIds = [fst (snd r)],
                 variations = [tagVariation (fst (snd r)) (snd (snd r))]\<rparr>)]) t =
        entryOf (filter (\<lambda>x. registrationText x = t) (rs @ [r]))"
    proof -
      fix t
      show "map_of (pm @ [(?t, \<lparr>ptype = fst r, prospectIds = [fst (snd r)],
                 variations = [tagVariation (fst (snd r)) (snd (snd r))]\<rparr>)]) t =
        entryOf (filter (\<lambda>x. registrationText x = t) (rs @ [r]))"
      proof (cases "t = ?t")
        case True
        then show ?thesis using None none by (simp add: map_add_def entryOf_snoc)
      next
        case False
        then show ?thesis using entries [of t]
          by (auto simp: map_add_def split: option.splits)
      qed
    qed
    then show ?thesis
      unfolding step registered_def using keys dist texts notin by auto
  next
    case (Some info)
    then have old: "?t \<in> set pats" using keys by (metis map_of_SomeD set_map fst_conv image_eqI)
    have step: "registerOne st r = (AList.map_entry ?t ?f pm, pats)"
      using Some by (simp add: registerOne_def registerVariation_def st registrationText_def Let_def)
    have some: "entryOf (filter (\<lambda>x. registrationText x = ?t) rs) = Some info"
      using Some entries by simp
    have "\<And>t. map_of (AList.map_entry ?t ?f pm) t =
        entryOf (filter (\<lambda>x. registrationText x = t) (rs @ [r]))"
    proof -
      fix t
      show "map_of (AList.map_entry ?t ?f pm) t =
        entryOf (filter (\<lambda>x. registrationText x = t) (rs @ [r]))"
      proof (cases "t = ?t")
        case True
        then show ?thesis using Some some by (simp add: map_of_map_entry entryOf_snoc)
      next
        case False
        then show ?thesis using entries [of t] by (simp add: map_of_map_entry)
      qed
    qed
    then show ?thesis
      unfolding step registered_def using keys dist texts old
      by (auto simp: map_fst_map_entry)
  qed
qed

lemma registered_foldl: "registered rs (foldl registerOne ([], []) rs)"
proof (induction rs rule: rev_induct)
  case Nil
  show ?case by (simp add: registered_def entryOf_def)
next
  case (snoc r rs)
  then show ?case by (simp add: registered_step)
qed

text \<open>
  Claim C10. After \<open>buildAutomaton\<close> the pattern list of the automaton has no
  duplicates, it is the list of the keys of the pattern map, and it holds exactly the
  pattern texts of the registrations. The single entry of a text lists one variation,
  and one prospect id, for every registration of that text, whatever prospect and
  whatever kind (name or company) it comes from, in the order of registration; its type
  is the kind of the first of them.
\<close>

theorem pattern_entries_unique_and_shared:
  "distinct (snd (buildAutomaton prospects)) \<and>
   map fst (fst (buildAutomaton prospects)) = snd (buildAutomaton prospects) \<and>
   set (snd (buildAutomaton prospects)) = registrationText ` set (registrations prospects) \<and>
   (\<forall>t \<in> set (snd (buildAutomaton prospects)).
      \<exists>info. map_of (fst (buildAutomaton prospects)) t = Some info \<and>
        variations info =
          map (\<lambda>r. tagVariation (fst (snd r)) (snd (snd r))) (registrationsOf t prospects) \<and>
        prospectIds info = map (\<lambda>r. fst (snd r)) (registrationsOf t prospects) \<and>
        ptype info = fst (hd (registrationsOf t prospects)))"
proof -
  let ?rs = "registrations prospects"
  have reg: "registered ?rs (buildAutomaton prospects)"
    by (simp add: buildAutomaton_registrations registered_foldl)
  have entry: "\<exists>info. map_of (fst (buildAutomaton prospects)) t = Some info \<and>
        variations info =
          map (\<lambda>r. tagVariation (fst (snd r)) (snd (snd r))) (registrationsOf t prospects) \<and>
        prospectIds info = map (\<lambda>r. fst (snd r)) (registrationsOf t prospects) \<and>
        ptype info = fst (hd (registrationsOf t prospects))"
    if "t \<in> set (snd (buildAutomaton prospects))" for t
  proof -
    from that reg have "t \<in> registrationText ` set ?rs" by (simp add: registered_def)
    then have "filter (\<lambda>r. registrationText r = t) ?rs \<noteq> []"
      by (auto simp: filter_empty_conv)
    then obtain r rest where f: "filter (\<lambda>r. registrationText r = t) ?rs = r # rest"
      by (cases "filter (\<lambda>r. registrationText r = t) ?rs") auto
    from reg have "map_of (fst (buildAutomaton prospects)) t =
        entryOf (filter (\<lambda>r. registrationText r = t) ?rs)"
      by (simp add: registered_def)
    then show ?thesis
      by (simp add: f entryOf_def registrationsOf_def)
  qed
  from reg entry show ?thesis by (simp add: registered_def)
qed

lemmas company_defs = generateCompanyPatterns_def companyRoot_def matchLegalSuffix_def
  legalSuffixes_def wordBoundary_def isWordOpt_def headOpt_def

lemmas automaton_defs = buildAutomaton_def registerProspect_def registerVariation_def
  tagVariation_def

lemma eval_names_john_smith:
  "generateNamePatterns ''John Smith'' =
     [\<lparr>pattern_text = ''john smith'', vtype = first_last_exact, firstName = ''john'',
       lastName = ''smith'', allowInitial = False\<rparr>,
      \<lparr>pattern_text = ''john smith'', vtype = first_last_with_initial, firstName = ''john'',
       lastName = ''smith'', allowInitial = True\<rparr>]"
  by (simp add: generateNamePatterns_def nameTokens_def normalize_defs char_class_defs Let_def)

lemma eval_names_jane_doe:
  "generateNamePatterns ''Jane Doe'' =
     [\<lparr>pattern_text = ''jane doe'', vtype = first_last_exact, firstName = ''jane'',
       lastName = ''doe'', allowInitial = False\<rparr>,
      \<lparr>pattern_text = ''jane doe'', vtype = first_last_with_initial, firstName = ''jane'',
       lastName = ''doe'', allowInitial = True\<rparr>]"
  by (simp add: generateNamePatterns_def nameTokens_def normalize_defs char_class_defs Let_def)

lemma eval_company_acme_corp:
  "generateCompanyPatterns ''Acme Corp'' =
     [\<lparr>pattern_text = ''acme'', vtype = company_root, firstName = [], lastName = [],
       allowInitial = False\<rparr>]"
  by (simp add: company_defs normalize_defs char_class_defs)

lemma eval_company_john_smith_llc:
  "generateCompanyPatterns ''John Smith LLC'' =
     [\<lparr>pattern_text = ''john smith'', vtype = company_root, firstName = [], lastName = [],
       allowInitial = False\<rparr>]"
  by (simp add: company_defs normalize_defs char_class_defs)

lemma eval_sharing_automaton:
  "buildAutomaton sharingProspects =
     ([(''john smith'',
        \<lparr>ptype = name_pattern, prospectIds = [''1'', ''1'', ''2''],
         variations =
           [\<lparr>pattern_text = ''john smith'', vtype = first_last_exact, firstName = ''john'',
              lastName = ''smith'', allowInitial = False, prospectId = ''1''\<rparr>,
            \<lparr>pattern_text = ''john smith'', vtype = first_last_with_initial, firstName = ''john'',
              lastName = ''smith'', allowInitial = True, prospectId = ''1''\<rparr>,
            \<lparr>pattern_text = ''john smith'', vtype = company_root, firstName = [],
              lastName = [], allowInitial = False, prospectId = ''2''\<rparr>]\<rparr>),
       (''acme'',
        \<lparr>ptype = company_pattern, prospectIds = [''1''],
         variations =
           [\<lparr>pattern_text = ''acme'', vtype = company_root, firstName = [],
              lastName = [], allowInitial = False, prospectId = ''1''\<rparr>]\<rparr>),
       (''jane doe'',
        \<lparr>ptype = name_pattern, prospectIds = [''2'', ''2''],
         variations =
           [\<lparr>pattern_text = ''jane doe'', vtype = first_last_exact, firstName = ''jane'',
              lastName = ''doe'', allowInitial = False, prospectId = ''2''\<rparr>,
            \<lparr>pattern_text = ''jane doe'', vtype = first_last_with_initial, firstName = ''jane'',
              lastName = ''doe'', allowInitial = True, prospectId = ''2''\<rparr>]\<rparr>)],
      [''john smith'', ''acme'', ''jane doe''])"
  by (simp add: sharingProspects_def automaton_defs eval_names_john_smith eval_names_jane_doe
      eval_company_acme_corp eval_company_john_smith_llc Let_def)

theorem pattern_entries_unique_and_shared_witness:
  "''john smith'' \<in> set (snd (buildAutomaton sharingProspects)) \<and>
   (\<exists>info. map_of (fst (buildAutomaton sharingProspects)) ''john smith'' = Some info \<and>
      map prospectId (variations info) = [''1'', ''1'', ''2''] \<and>
      map vtype (variations info) = [first_last_exact, first_last_with_initial, company_root]) \<and>
   distinct (snd (buildAutomaton sharingProspects))"
proof -
  have "distinct (snd (buildAutomaton sharingProspects))"
    using pattern_entries_unique_and_shared [of sharingProspects] by (rule conjunct1)
  then show ?thesis by (simp add: eval_sharing_automaton)
qed

section \<open>Properties of the deduplication\<close>

lemma precedes_iff:
  "precedes a b \<longleftrightarrow>
     confidence b < confidence a \<or>
     (confidence a = confidence b \<and> typeOrder (match_type b) \<le> typeOrder (match_type a))"
  by (auto simp: precedes_def compareMatches_def)

lemma precedes_total: "\<not> precedes a b \<Longrightarrow> precedes b a"
  by (auto simp: precedes_iff)

lemma precedes_trans: "precedes a b \<Longrightarrow> precedes b c \<Longrightarrow> precedes a c"
  by (auto simp: precedes_iff)

lemma set_insertBy: "set (insertBy cmp x xs) = insert x (set xs)"
  by (induction xs) auto

lemma mset_insertBy: "mset (insertBy cmp x xs) = add_mset x (mset xs)"
  by (induction xs) auto

lemma mset_sortBy: "mset (sortBy cmp xs) = mset xs"
  by (induction xs) (simp_all add: sortBy_def mset_insertBy)

lemma set_sortBy: "set (sortBy cmp xs) = set xs"
  by (metis mset_sortBy set_mset_mset)

lemma sorted_insertBy:
  "sorted_wrt precedes xs \<Longrightarrow> sorted_wrt precedes (insertBy compareMatches x xs)"
proof (induction xs)
  case Nil
  show ?case by simp
next
  case (Cons y ys)
  show ?case
  proof (cases "compareMatches x y \<le> 0")
    case True
    then have xy: "precedes x y" by (simp add: precedes_def)
    have "\<forall>z \<in> set ys. precedes x z"
      using Cons.prems xy precedes_trans by auto
    then show ?thesis using True xy Cons.prems by simp
  next
    case False
    then have yx: "precedes y x" using precedes_total by (simp add: precedes_def)
    show ?thesis using False yx Cons by (auto simp: set_insertBy)
  qed
qed

lemma sorted_sortBy: "sorted_wrt precedes (sortBy compareMatches xs)"
  by (induction xs) (simp_all add: sortBy_def sorted_insertBy)

lemma insertBy_sorted:
  "sorted_wrt precedes (x # xs) \<Longrightarrow> insertBy compareMatches x xs = x # xs"
  by (cases xs) (simp_all add: precedes_def)

lemma sortBy_sorted: "sorted_wrt precedes xs \<Longrightarrow> sortBy compareMatches xs = xs"
proof (induction xs)
  case Nil
  show ?case by (simp add: sortBy_def)
next
  case (Cons x xs)
  then have "sortBy compareMatches xs = xs" by simp
  then have "sortBy compareMatches (x # xs) = insertBy compareMatches x xs"
    by (simp add: sortBy_def)
  then show ?case using Cons.prems insertBy_sorted by simp
qed

lemma update_new: "k \<notin> fst ` set al \<Longrightarrow> AList.update k v al = al @ [(k, v)]"
  by (induction al) auto

lemma set_update_cases:
  "distinct (map fst al) \<Longrightarrow> e \<in> set (AList.update k v al) \<Longrightarrow>
     e = (k, v) \<or> (e \<in> set al \<and> fst e \<noteq> k)"
  by (induction al) (auto split: if_splits)

lemma keyed_update: "keyed seen \<Longrightarrow> keyed (AList.update (dedupKey m) m seen)"
  unfolding keyed_def
  by (auto simp: distinct_update dest: set_update_cases)

lemma keyed_keepBest: "keyed seen \<Longrightarrow> keyed (keepBest seen m)"
  by (auto simp: keepBest_def keyed_update split: option.splits)

lemma keyed_foldl: "keyed seen \<Longrightarrow> keyed (foldl keepBest seen ms)"
  by (induction ms arbitrary: seen) (simp_all add: keyed_keepBest)

lemma keyed_keys: "keyed seen \<Longrightarrow> map dedupKey (map snd seen) = map fst seen"
  by (induction seen) (auto simp: keyed_def)

lemma foldl_keepBest_distinct:
  assumes "distinct (map dedupKey xs)" "dedupKey ` set xs \<inter> fst ` set seen = {}"
  shows "foldl keepBest seen xs = seen @ map (\<lambda>m. (dedupKey m, m)) xs"
  using assms
proof (induction xs arbitrary: seen)
  case Nil
  show ?case by simp
next
  case (Cons x xs)
  have new: "dedupKey x \<notin> fst ` set seen" using Cons.prems(2) by auto
  then have "map_of seen (dedupKey x) = None" by (simp add: map_of_eq_None_iff)
  then have step: "keepBest seen x = seen @ [(dedupKey x, x)]"
    using new by (simp add: keepBest_def update_new)
  have "dedupKey ` set xs \<inter> fst ` set (seen @ [(dedupKey x, x)]) = {}"
    using Cons.prems by auto
  then have "foldl keepBest (seen @ [(dedupKey x, x)]) xs =
      (seen @ [(dedupKey x, x)]) @ map (\<lambda>m. (dedupKey m, m)) xs"
    using Cons.IH Cons.prems(1) by simp
  then show ?case using step by simp
qed

lemma distinct_keys_deduplicateMatches: "distinct (map dedupKey (deduplicateMatches ms))"
proof -
  let ?seen = "foldl keepBest [] ms"
  have k: "keyed ?seen" by (rule keyed_foldl) (simp add: keyed_def)
  then have "distinct (map dedupKey (map snd ?seen))"
    by (simp only: keyed_keys) (simp add: keyed_def)
  moreover have "mset (map dedupKey (deduplicateMatches ms)) = mset (map dedupKey (map snd ?seen))"
    unfolding deduplicateMatches_def by (simp only: mset_map mset_sortBy)
  ultimately show ?thesis by (metis mset_eq_imp_distinct_iff)
qed

text \<open>
  Claim C7. Running \<open>deduplicateMatches\<close> on its own output returns that output, the
  same records in the same order.
\<close>

theorem deduplicateMatches_idempotent:
  "deduplicateMatches (deduplicateMatches ms) = deduplicateMatches ms"
proof -
  let ?out = "deduplicateMatches ms"
  have "foldl keepBest [] ?out = [] @ map (\<lambda>m. (dedupKey m, m)) ?out"
    by (rule foldl_keepBest_distinct) (simp_all add: distinct_keys_deduplicateMatches)
  then have "map snd (foldl keepBest [] ?out) = ?out"
    by (simp add: comp_def)
  moreover have "sorted_wrt precedes ?out"
    unfolding deduplicateMatches_def by (rule sorted_sortBy)
  ultimately show ?thesis
    by (simp add: deduplicateMatches_def [of ?out] sortBy_sorted)
qed

section \<open>Properties of the deduplication, by key\<close>

lemma bestOf_other_key:
  "bestOf ms r \<Longrightarrow> dedupKey m \<noteq> dedupKey r \<Longrightarrow> bestOf (ms @ [m]) r"
  by (auto simp: bestOf_def)

lemma bestOf_kept:
  assumes "bestOf ms r" "dedupKey m = dedupKey r"
    "\<not> (confidence r < confidence m \<or> (confidence m = confidence r \<and> match_type m = NameAndCompany))"
  shows "bestOf (ms @ [m]) r"
  using assms by (auto simp: bestOf_def)

lemma bestOf_replaced:
  assumes "bestOf ms r" "dedupKey m = dedupKey r"
    "confidence r < confidence m \<or> (confidence m = confidence r \<and> match_type m = NameAndCompany)"
  shows "bestOf (ms @ [m]) m"
  using assms by (fastforce simp: bestOf_def)

lemma bestOf_new:
  assumes "dedupKey m \<notin> dedupKey ` set ms"
  shows "bestOf (ms @ [m]) m"
proof -
  have "\<forall>x \<in> set ms. dedupKey x \<noteq> dedupKey m" using assms by (metis imageI)
  then show ?thesis by (auto simp: bestOf_def)
qed

lemma keyed_lookup: "keyed seen \<Longrightarrow> map_of seen k = Some r \<Longrightarrow> dedupKey r = k \<and> (k, r) \<in> set seen"
  by (force simp: keyed_def dest: map_of_SomeD)

lemma bestSeen_step:
  assumes "bestSeen ms seen"
  shows "bestSeen (ms @ [m]) (keepBest seen m)"
proof -
  let ?k = "dedupKey m"
  from assms have k: "keyed seen" and keys: "fst ` set seen = dedupKey ` set ms"
    and best: "\<And>e. e \<in> set seen \<Longrightarrow> bestOf ms (snd e)"
    by (simp_all add: bestSeen_def)
  have others: "bestOf (ms @ [m]) (snd e)" if "e \<in> set seen" "fst e \<noteq> ?k" for e
  proof -
    from that(1) k have "fst e = dedupKey (snd e)" by (simp add: keyed_def)
    then show ?thesis using that best bestOf_other_key by metis
  qed
  have upd: "bestSeen (ms @ [m]) (AList.update ?k m seen)" if "bestOf (ms @ [m]) m"
    unfolding bestSeen_def
  proof (intro conjI ballI)
    show "keyed (AList.update ?k m seen)" using k by (rule keyed_update)
    show "fst ` set (AList.update ?k m seen) = dedupKey ` set (ms @ [m])"
      using keys by (auto simp: dom_update)
    fix e assume "e \<in> set (AList.update ?k m seen)"
    then have "e = (?k, m) \<or> (e \<in> set seen \<and> fst e \<noteq> ?k)"
      using k set_update_cases by (metis keyed_def)
    then show "bestOf (ms @ [m]) (snd e)" using that others by (metis snd_conv)
  qed
  show ?thesis
  proof (cases "map_of seen ?k")
    case None
    then have "?k \<notin> dedupKey ` set ms" using keys by (simp add: map_of_eq_None_iff)
    then have "bestOf (ms @ [m]) m" by (rule bestOf_new)
    then show ?thesis using None upd by (simp add: keepBest_def)
  next
    case (Some r)
    then have r: "dedupKey r = ?k" "(?k, r) \<in> set seen" using k keyed_lookup by blast+
    then have br: "bestOf ms r" using best by fastforce
    show ?thesis
    proof (cases "confidence r < confidence m \<or>
        (confidence m = confidence r \<and> match_type m = NameAndCompany)")
      case True
      then have "bestOf (ms @ [m]) m" using br r(1) bestOf_replaced by metis
      then show ?thesis using Some True upd by (simp add: keepBest_def)
    next
      case False
      then have keep: "keepBest seen m = seen" using Some by (auto simp: keepBest_def)
      have kept: "bestOf (ms @ [m]) r" using br r(1) False bestOf_kept by metis
      have "bestOf (ms @ [m]) (snd e)" if "e \<in> set seen" for e
      proof (cases "fst e = ?k")
        case True
        then have "e = (?k, r)"
          using that r(2) k by (metis keyed_def eq_key_imp_eq_value prod.collapse)
        then show ?thesis using kept by simp
      next
        case False
        then show ?thesis using that others by blast
      qed
      moreover have "fst ` set seen = dedupKey ` set (ms @ [m])"
        using keys r(2) by force
      ultimately show ?thesis using k keep by (simp add: bestSeen_def)
    qed
  qed
qed

lemma bestSeen_foldl: "bestSeen ms (foldl keepBest [] ms)"
proof (induction ms rule: rev_induct)
  case Nil
  show ?case by (simp add: bestSeen_def keyed_def)
next
  case (snoc m ms)
  then show ?case by (simp add: bestSeen_step)
qed

lemma takeWhile_separator: "c \<notin> set a \<Longrightarrow> takeWhile (\<lambda>x. x \<noteq> c) (a @ c # b) = a"
  by (induction a) auto

lemma colon_free_key:
  assumes "CHR '':'' \<notin> set a" "CHR '':'' \<notin> set a'" "a @ '':'' @ b = a' @ '':'' @ b'"
  shows "a = a' \<and> b = b'"
proof -
  have "takeWhile (\<lambda>c. c \<noteq> CHR '':'') (a @ '':'' @ b) = a"
    using assms(1) by (simp add: takeWhile_separator)
  moreover have "takeWhile (\<lambda>c. c \<noteq> CHR '':'') (a' @ '':'' @ b') = a'"
    using assms(2) by (simp add: takeWhile_separator)
  ultimately have "a = a'" using assms(3) by simp
  then show ?thesis using assms(3) by simp
qed

text \<open>
  The deduplication, by key. The output of \<open>deduplicateMatches\<close> holds one record for
  every key \<open>prospect_id:sec_filing\<close> of the input, a best one (\<open>bestOf\<close>), and it is
  ordered by descending confidence, \<open>NameAndCompany\<close> before \<open>NameOnly\<close> before
  \<open>CompanyOnly\<close> at equal confidence. When no prospect id of the input contains a
  colon, the key determines the pair of prospect id and document, so the output holds
  exactly one record for every such pair of the input.
\<close>

theorem deduplicateMatches_best_per_key:
  "distinct (map dedupKey (deduplicateMatches ms)) \<and>
   dedupKey ` set (deduplicateMatches ms) = dedupKey ` set ms \<and>
   (\<forall>r \<in> set (deduplicateMatches ms). bestOf ms r) \<and>
   sorted_wrt (\<lambda>a b. confidence b < confidence a \<or>
       (confidence a = confidence b \<and> typeOrder (match_type b) \<le> typeOrder (match_type a)))
     (deduplicateMatches ms) \<and>
   ((\<forall>m \<in> set ms. CHR '':'' \<notin> set (prospect_id m)) \<longrightarrow>
      distinct (map (\<lambda>m. (prospect_id m, sec_filing m)) (deduplicateMatches ms)) \<and>
      (\<lambda>m. (prospect_id m, sec_filing m)) ` set (deduplicateMatches ms) =
        (\<lambda>m. (prospect_id m, sec_filing m)) ` set ms)"
proof -
  let ?out = "deduplicateMatches ms"
  let ?pair = "\<lambda>m. (prospect_id m, sec_filing m)"
  have inv: "bestSeen ms (foldl keepBest [] ms)" by (rule bestSeen_foldl)
  have set_out: "set ?out = snd ` set (foldl keepBest [] ms)"
    by (simp add: deduplicateMatches_def set_sortBy)
  have d: "distinct (map dedupKey ?out)" by (rule distinct_keys_deduplicateMatches)
  have "dedupKey ` snd ` set (foldl keepBest [] ms) = fst ` set (foldl keepBest [] ms)"
    using inv by (force simp: bestSeen_def keyed_def)
  then have keys: "dedupKey ` set ?out = dedupKey ` set ms"
    using inv set_out by (simp add: bestSeen_def)
  have best: "\<forall>r \<in> set ?out. bestOf ms r"
    using inv set_out by (auto simp: bestSeen_def)
  have "sorted_wrt precedes ?out"
    unfolding deduplicateMatches_def by (rule sorted_sortBy)
  then have sorted: "sorted_wrt (\<lambda>a b. confidence b < confidence a \<or>
       (confidence a = confidence b \<and> typeOrder (match_type b) \<le> typeOrder (match_type a))) ?out"
    by (simp add: precedes_iff [abs_def])
  have pairs: "distinct (map ?pair ?out) \<and> ?pair ` set ?out = ?pair ` set ms"
    if nocolon: "\<forall>m \<in> set ms. CHR '':'' \<notin> set (prospect_id m)"
  proof -
    have sub: "set ?out \<subseteq> set ms" using best by (auto simp: bestOf_def)
    have inj: "dedupKey a = dedupKey b \<longleftrightarrow> ?pair a = ?pair b" if "a \<in> set ms" "b \<in> set ms" for a b
      using that nocolon colon_free_key [of "prospect_id a" "prospect_id b" "sec_filing a" "sec_filing b"]
      by (auto simp: dedupKey_def)
    have "inj_on ?pair (set ?out)"
    proof (rule inj_onI)
      fix a b assume ab: "a \<in> set ?out" "b \<in> set ?out" "?pair a = ?pair b"
      then have "dedupKey a = dedupKey b" using inj sub by blast
      then show "a = b" using d ab(1,2) by (meson distinct_map inj_onD)
    qed
    moreover have "distinct ?out" using d by (rule distinct_map [THEN iffD1, THEN conjunct1])
    ultimately have d2: "distinct (map ?pair ?out)" by (simp add: distinct_map)
    have "?pair ` set ?out = ?pair ` set ms"
    proof (intro equalityI subsetI)
      fix p assume "p \<in> ?pair ` set ?out"
      then show "p \<in> ?pair ` set ms" using sub by blast
    next
      fix p assume "p \<in> ?pair ` set ms"
      then obtain m where m: "m \<in> set ms" "p = ?pair m" by blast
      then have "dedupKey m \<in> dedupKey ` set ?out" using keys by blast
      then obtain r where r: "r \<in> set ?out" "dedupKey r = dedupKey m" by auto
      then have "?pair r = ?pair m" using inj m(1) sub by blast
      then have "p = ?pair r" using m(2) by simp
      then show "p \<in> ?pair ` set ?out" using r(1) by (rule image_eqI)
    qed
    then show ?thesis using d2 by simp
  qed
  show ?thesis using d keys best sorted pairs by blast
qed

text \<open>
  Claim C2, evaluated. The key is the string \<open>prospect_id:sec_filing\<close>, which does not
  determine the pair: prospect \<open>7\<close> in document \<open>a:b.txt\<close> and prospect \<open>7:a\<close> in
  document \<open>b.txt\<close> have the same key. Of these two groups the output keeps a record
  of one only, where the claim expects one record for each.
\<close>

theorem colliding_keys_drop_a_group:
  "(prospect_id collidingFirst, sec_filing collidingFirst) \<noteq>
     (prospect_id collidingSecond, sec_filing collidingSecond) \<and>
   dedupKey collidingFirst = dedupKey collidingSecond \<and>
   deduplicateMatches [collidingFirst, collidingSecond] = [collidingSecond]"
  by (simp add: deduplicateMatches_def keepBest_def sortBy_def dedupKey_def
      collidingFirst_def collidingSecond_def)

section \<open>Read errors and the loop over the documents\<close>

lemma set_update_subset: "e \<in> set (AList.update k v al) \<Longrightarrow> e = (k, v) \<or> e \<in> set al"
  by (induction al) (auto split: if_splits)

lemma bounded_update:
  "bounded hits \<Longrightarrow> length (contexts h) \<le> 1 \<Longrightarrow> bounded (AList.update k h hits)"
  unfolding bounded_def by (auto dest: set_update_subset)

lemma bounded_lookup: "bounded hits \<Longrightarrow> map_of hits k = Some h \<Longrightarrow> length (contexts h) \<le> 1"
  unfolding bounded_def by (force dest: map_of_SomeD)

lemma bounded_recordVariation:
  assumes "bounded hits"
  shows "bounded (recordVariation t n pat info a b hits v)"
proof (cases "map_of hits (prospectId v)")
  case None
  have b1: "bounded (hits @ [(prospectId v, newHit)])"
    using assms by (auto simp: bounded_def newHit_def)
  show ?thesis
    using None b1
    by (auto simp: recordVariation_def Let_def newHit_def intro!: bounded_update
        split: pattern_kind.splits)
next
  case (Some h)
  then have "length (contexts h) \<le> 1" using assms bounded_lookup by blast
  then show ?thesis
    using Some assms
    by (auto simp: recordVariation_def Let_def intro!: bounded_update split: pattern_kind.splits)
qed

lemma bounded_foldl:
  "(\<And>h x. bounded h \<Longrightarrow> bounded (f h x)) \<Longrightarrow> bounded hits \<Longrightarrow> bounded (foldl f hits xs)"
  by (induction xs arbitrary: hits) simp_all

lemma bounded_processPattern: "bounded hits \<Longrightarrow> bounded (processPattern pm t n e hits pat)"
  by (auto simp: processPattern_def Let_def bounded_recordVariation intro!: bounded_foldl
      split: option.splits)

lemma bounded_onData: "bounded (prospectHits st) \<Longrightarrow> bounded (prospectHits (onData aut st chunk))"
  by (auto simp: onData_def Let_def bounded_processPattern intro!: bounded_foldl)

lemma bounded_scan: "bounded (prospectHits (foldl (onData aut) initialState chunks))"
proof -
  have "bounded (prospectHits st) \<Longrightarrow> bounded (prospectHits (foldl (onData aut) st chunks))" for st
    by (induction chunks arbitrary: st) (simp_all add: bounded_onData)
  moreover have "bounded (prospectHits initialState)"
    by (simp add: initialState_def bounded_def)
  ultimately show ?thesis by blast
qed

lemma length_slice_le: "length (slice xs a b) \<le> length xs"
  by (simp add: slice_def)

lemma generateMatchResults_contexts:
  assumes "bounded hits" "m \<in> set (generateMatchResults env prospects filename hits)"
  shows "length (match_contexts m) \<le> 1"
proof -
  from assms(2) obtain e where e: "e \<in> set hits"
    and m: "m \<in> set (generateMatchResult env prospects filename e)"
    by (auto simp: generateMatchResults_def)
  from e assms(1) have c: "length (contexts (snd e)) \<le> 1" by (simp add: bounded_def)
  have f: "length (filter (\<lambda>c. context_type c = name_pattern) (contexts (snd e))) \<le> 1"
    using c by (meson length_filter_le order_trans)
  from m show ?thesis
    using c f length_slice_le [of "contexts (snd e)" 0 3]
      length_slice_le [of "filter (\<lambda>c. context_type c = name_pattern) (contexts (snd e))" 0 2]
    by (auto simp: generateMatchResult_def makeMatch_def Let_def split: option.splits if_splits)
qed

lemma processFileLinear_contexts:
  "processFileLinear env prospects aut source filename = Resolved ms \<Longrightarrow> m \<in> set ms \<Longrightarrow>
     length (match_contexts m) \<le> 1"
proof -
  assume r: "processFileLinear env prospects aut source filename = Resolved ms" and m: "m \<in> set ms"
  show ?thesis
  proof (cases "\<exists>chunks. source = Stream chunks StreamEnd")
    case True
    then obtain chunks where "source = Stream chunks StreamEnd" by blast
    then have "ms = generateMatchResults env prospects filename
        (prospectHits (foldl (onData aut) initialState chunks))"
      using r by (simp add: processFileLinear_def)
    then show ?thesis using m generateMatchResults_contexts [OF bounded_scan] by blast
  next
    case False
    then have "ms = []"
      using r by (simp add: processFileLinear_def split: file_source.splits stream_end.splits)
    then show ?thesis using m by simp
  qed
qed

lemma processFileLinear_resolves:
  "\<exists>ms. processFileLinear env prospects aut source filename = Resolved ms"
  by (simp add: processFileLinear_def split: file_source.splits stream_end.splits)

lemma keepFirstContext_bounded: "length (match_contexts m) \<le> 1 \<Longrightarrow> keepFirstContext m = m"
  by (cases "match_contexts m") (auto simp: keepFirstContext_def)

lemma fileLoop_concat:
  assumes "\<forall>m \<in> set acc. length (match_contexts m) \<le> 1"
  shows "fileLoop env files prospects aut i acc fs =
     acc @ concat (map (\<lambda>f. resolved (processFileLinear env prospects aut (files (path f)) (originalname f))) fs)"
  using assms
proof (induction fs arbitrary: i acc)
  case Nil
  show ?case by simp
next
  case (Cons f fs)
  obtain ms where ms: "processFileLinear env prospects aut (files (path f)) (originalname f) = Resolved ms"
    using processFileLinear_resolves by blast
  have b: "\<forall>m \<in> set (acc @ ms). length (match_contexts m) \<le> 1"
    using Cons.prems processFileLinear_contexts [OF ms] by auto
  then have same: "map keepFirstContext (acc @ ms) = acc @ ms"
    by (simp add: keepFirstContext_bounded map_idI)
  have "fileLoop env files prospects aut i acc (f # fs) =
      fileLoop env files prospects aut (i + 1) (acc @ ms) fs"
    using ms same by (simp add: Let_def)
  also have "\<dots> = (acc @ ms) @ concat (map (\<lambda>f. resolved (processFileLinear env prospects aut (files (path f)) (originalname f))) fs)"
    using b by (rule Cons.IH)
  finally show ?case using ms by (simp add: resolved_def)
qed

text \<open>
  Claim C9. When the stream of a document emits \<open>error\<close>, after any number of chunks,
  the promise of \<open>processFileLinear\<close> is resolved with the empty list, not rejected. The
  loop over the documents goes on: the result of \<open>processMatchingLinear\<close> is the one
  it gives for the other documents alone.
\<close>

theorem read_error_gives_no_results:
  "processFileLinear env prospects automaton (Stream chunks StreamError) filename = Resolved [] \<and>
   (files (path f) = Stream chunks StreamError \<longrightarrow>
      processMatchingLinear env files prospects (before @ f # after) =
      processMatchingLinear env files prospects (before @ after))"
proof -
  have err: "processFileLinear env prospects automaton (Stream chunks StreamError) filename = Resolved []"
    for automaton filename
    by (simp add: processFileLinear_def)
  have "fileLoop env files prospects aut 0 [] (before @ f # after) =
        fileLoop env files prospects aut 0 [] (before @ after)"
    if "files (path f) = Stream chunks StreamError" for aut
    using that err by (simp add: fileLoop_concat resolved_def)
  then show ?thesis using err by (simp add: processMatchingLinear_def)
qed

section \<open>The scenarios, evaluated\<close>

lemma eval_names_john_a_smith:
  "generateNamePatterns ''John A. Smith'' =
     [\<lparr>pattern_text = ''john smith'', vtype = first_last_exact, firstName = ''john'',
       lastName = ''smith'', allowInitial = False\<rparr>,
      \<lparr>pattern_text = ''john smith'', vtype = first_last_with_initial, firstName = ''john'',
       lastName = ''smith'', allowInitial = True\<rparr>]"
  by (simp add: generateNamePatterns_def eval_tokens_john Let_def)

lemma eval_company_acme_holdings:
  "generateCompanyPatterns ''Acme Holdings'' =
     [\<lparr>pattern_text = ''acme holdings'', vtype = company_root, firstName = [], lastName = [],
       allowInitial = False\<rparr>]"
  by (simp add: company_defs normalize_defs char_class_defs)

lemma eval_smith_automaton: "buildAutomaton smithProspects = smithAutomaton"
  by (simp add: smithProspects_def smithAutomaton_def automaton_defs eval_names_john_a_smith
      eval_company_acme_holdings Let_def)

lemma eval_normalize_initial:
  "normalizeText ''John A. Smith signed the filing.'' = ''john a smith signed the filing''"
  by (simp add: normalize_defs char_class_defs)

lemma eval_search_initial:
  "search [''john smith'', ''acme holdings''] ''john a smith signed the filing'' = []"
  by (simp add: search_def patternsEndingAt_def endsAt_def)

lemma eval_scan_initial:
  "onData smithAutomaton initialState ''John A. Smith signed the filing.'' =
     \<lparr>prospectHits = [], processedBytes = 32, previousOverlap = []\<rparr>"
  by (simp add: onData_def initialState_def smithAutomaton_def eval_normalize_initial
      eval_search_initial OVERLAP_SIZE_def Let_def)

lemma eval_normalize_alexander:
  "normalizeText ''John Alexander Smith signed.'' = ''john alexander smith signed''"
  by (simp add: normalize_defs char_class_defs)

lemma eval_search_alexander:
  "search [''john smith'', ''acme holdings''] ''john alexander smith signed'' = []"
  by (simp add: search_def patternsEndingAt_def endsAt_def)

lemma eval_scan_alexander:
  "onData smithAutomaton initialState ''John Alexander Smith signed.'' =
     \<lparr>prospectHits = [], processedBytes = 28, previousOverlap = []\<rparr>"
  by (simp add: onData_def initialState_def smithAutomaton_def eval_normalize_alexander
      eval_search_alexander OVERLAP_SIZE_def Let_def)

lemma eval_normalize_adjacent: "normalizeText ''John Smith signed.'' = ''john smith signed''"
  by (simp add: normalize_defs char_class_defs)

lemma eval_search_adjacent:
  "search [''john smith'', ''acme holdings''] ''john smith signed'' = [(9, [''john smith''])]"
  by (simp add: search_def patternsEndingAt_def endsAt_def)

lemma eval_boundaries_adjacent:
  "hasValidWordBoundaries ''john smith signed'' \<lparr>start = 0, stop = 10, pattern = ''john smith''\<rparr>"
  by (simp add: hasValidWordBoundaries_def beforeChar_def afterChar_def charAt_def
      isBoundaryChar_def char_class_defs)

lemma nameRegexTest_at:
  "nameRegexAt first lst s i \<Longrightarrow> i \<le> length s \<Longrightarrow> nameRegexTest first lst s"
  unfolding nameRegexTest_def list_ex_iff
  by (rule bexI [where x = i]) auto

lemmas regex_defs = nameRegexAt_def initialAt_def lastNameAt_def literalAt_def spaceRun_def
  wordBoundaryAt_def wordBoundary_def isWordOpt_def charAtNat_def toLowerCase_def

lemma eval_regex_adjacent: "nameRegexTest ''john'' ''smith'' ''john smith signed''"
proof (rule nameRegexTest_at [where i = 0])
  show "nameRegexAt ''john'' ''smith'' ''john smith signed'' 0"
    by (simp add: regex_defs char_class_defs)
qed simp

lemma eval_scan_adjacent:
  "onData smithAutomaton initialState ''John Smith signed.'' =
     \<lparr>prospectHits = [(''1'', \<lparr>nameHit = True, companyHit = False, contexts = [adjacentContext]\<rparr>)],
      processedBytes = 18, previousOverlap = []\<rparr>"
  by (simp add: onData_def initialState_def smithAutomaton_def eval_normalize_adjacent
      eval_search_adjacent eval_boundaries_adjacent eval_regex_adjacent processPattern_def
      recordVariation_def newHit_def makeContext_def adjacentContext_def slice_def sliceIndex_def
      OVERLAP_SIZE_def Let_def)

lemma eval_normalize_first_chunk: "normalizeText ''John '' = ''john''"
  by (simp add: normalize_defs char_class_defs)

lemma eval_search_first_chunk: "search [''john smith'', ''acme holdings''] ''john'' = []"
  by (simp add: search_def patternsEndingAt_def endsAt_def)

lemma eval_scan_first_chunk:
  "onData smithAutomaton initialState ''John '' =
     \<lparr>prospectHits = [], processedBytes = 5, previousOverlap = []\<rparr>"
  by (simp add: onData_def initialState_def smithAutomaton_def eval_normalize_first_chunk
      eval_search_first_chunk OVERLAP_SIZE_def Let_def)

lemma eval_normalize_second_chunk: "normalizeText ''Smith signed.'' = ''smith signed''"
  by (simp add: normalize_defs char_class_defs)

lemma eval_search_second_chunk: "search [''john smith'', ''acme holdings''] ''smith signed'' = []"
  by (simp add: search_def patternsEndingAt_def endsAt_def)

lemma eval_scan_second_chunk:
  "onData smithAutomaton \<lparr>prospectHits = [], processedBytes = 5, previousOverlap = []\<rparr>
       ''Smith signed.'' =
     \<lparr>prospectHits = [], processedBytes = 18, previousOverlap = []\<rparr>"
  by (simp add: onData_def smithAutomaton_def eval_normalize_second_chunk
      eval_search_second_chunk OVERLAP_SIZE_def Let_def)

lemma eval_classify_adjacent:
  "generateMatchResults env smithProspects filename
     [(''1'', \<lparr>nameHit = True, companyHit = False, contexts = [adjacentContext]\<rparr>)] =
   [makeMatch env \<lparr>ident = ''1'', name = ''John A. Smith'', company = ''Acme Holdings''\<rparr>
      ''1'' filename NameOnly 75 [adjacentContext]]"
  by (simp add: generateMatchResults_def generateMatchResult_def smithProspects_def
      adjacentContext_def slice_def sliceIndex_def)

lemma generateMatchResults_no_hits: "generateMatchResults env prospects filename [] = []"
  by (simp add: generateMatchResults_def)

text \<open>
  Claim C3, evaluated. For the prospect \<open>John A. Smith\<close> the only pattern is
  \<open>john smith\<close>, and the automaton reports literal occurrences only. The normalized
  text \<open>john a smith signed the filing\<close> holds no occurrence of \<open>john smith\<close>, so the
  check for the initial is never reached and the document gives no match, where the
  claim expects an accepted name match. The document with \<open>Alexander\<close> between the
  names gives no match either, as the claim says; the names next to each other do.
\<close>

theorem initial_between_names_not_matched:
  "processFileLinear env smithProspects (buildAutomaton smithProspects)
      (Stream [''John A. Smith signed the filing.''] StreamEnd) filename = Resolved [] \<and>
   processFileLinear env smithProspects (buildAutomaton smithProspects)
      (Stream [''John Alexander Smith signed.''] StreamEnd) filename = Resolved [] \<and>
   processFileLinear env smithProspects (buildAutomaton smithProspects)
      (Stream [''John Smith signed.''] StreamEnd) filename =
     Resolved [makeMatch env \<lparr>ident = ''1'', name = ''John A. Smith'', company = ''Acme Holdings''\<rparr>
                 ''1'' filename NameOnly 75 [adjacentContext]]"
  by (simp add: processFileLinear_def eval_smith_automaton eval_scan_initial eval_scan_alexander
      eval_scan_adjacent eval_classify_adjacent generateMatchResults_no_hits)

lemma isSpace_space: "isSpace CHR '' ''"
  by (simp add: isSpace_def)

lemma trim_leading_space: "trim (CHR '' '' # s) = trim s"
  by (simp add: trim_def isSpace_space)

lemma dropWhile_spaces: "dropWhile isSpace (spaces n @ s) = dropWhile isSpace s"
  by (induction n) (simp_all add: spaces_def isSpace_space)

lemma trim_collapse_dropWhile: "trim (collapseSpaces (dropWhile isSpace s)) = trim (collapseSpaces s)"
  by (cases s) (simp_all add: trim_leading_space)

lemma trim_collapse_spaces: "trim (collapseSpaces (spaces n @ s)) = trim (collapseSpaces s)"
proof (cases n)
  case 0
  then show ?thesis by (simp add: spaces_def)
next
  case (Suc k)
  then have "spaces n @ s = CHR '' '' # (spaces k @ s)" by (simp add: spaces_def)
  then show ?thesis
    by (simp add: isSpace_space trim_leading_space dropWhile_spaces trim_collapse_dropWhile)
qed

lemma normalizeTextChunk_spaces: "normalizeTextChunk (spaces n @ s) = normalizeTextChunk s"
proof -
  have l: "lowerChar CHR '' '' = CHR '' ''"
    by (simp add: lowerChar_def upperLetters_def lowerLetters_def upperLatin1_def
        lowerLatin1_def)
  have b: "baseChar CHR '' '' = CHR '' ''"
    by (simp add: baseChar_def accentedLetters_def baseLetters_def)
  have "toLowerCase (spaces n @ s) = spaces n @ toLowerCase s"
    by (simp add: toLowerCase_def spaces_def l)
  moreover have "removeAccents (spaces n @ t) = spaces n @ removeAccents t" for t
    by (simp add: removeAccents_def spaces_def b)
  moreover have "replacePunctuation (spaces n @ t) = spaces n @ replacePunctuation t" for t
    by (simp add: replacePunctuation_def spaces_def isSpace_space)
  ultimately have "replacePunctuation (removeAccents (toLowerCase (spaces n @ s))) =
      spaces n @ replacePunctuation (removeAccents (toLowerCase s))"
    by simp
  then show ?thesis by (simp add: normalizeTextChunk_def trim_collapse_spaces)
qed

lemma normalizeTextChunk_only_spaces: "normalizeTextChunk (spaces n) = []"
proof -
  have "normalizeTextChunk [] = []"
    by (simp add: normalizeTextChunk_def toLowerCase_def removeAccents_def
        replacePunctuation_def trim_def)
  then show ?thesis using normalizeTextChunk_spaces [of n "[]"] by simp
qed

lemma pieces_full:
  assumes "0 < n" "length a = n"
  shows "pieces n (a @ s) = a # pieces n s"
proof -
  have "a @ s \<noteq> []" using assms by auto
  then have "pieces n (a @ s) = take n (a @ s) # pieces n (drop n (a @ s))"
    using assms(1) by (subst pieces.simps) simp
  then show ?thesis using assms(2) by simp
qed

lemma pieces_last:
  assumes "s \<noteq> []" "length s \<le> n"
  shows "pieces n s = [s]"
proof -
  have "0 < n" using assms by (cases s) auto
  then have "pieces n s = take n s # pieces n (drop n s)"
    using assms by (subst pieces.simps) auto
  moreover have "pieces n [] = []" by (subst pieces.simps) simp
  ultimately show ?thesis using assms(2) by simp
qed

lemma spaces_add: "spaces (a + b) = spaces a @ spaces b"
  by (simp add: spaces_def replicate_add)

lemma length_spaces: "length (spaces n) = n"
  by (simp add: spaces_def)

lemma spaces_nonempty: "0 < n \<Longrightarrow> spaces n \<noteq> []"
  by (simp add: spaces_def)

lemma normalize_whole_padded:
  "normalizeText (spaces CHUNK_SIZE @ paddedChunk) = ''john smith signed''"
proof -
  let ?tail = "spaces 1046571 @ ''John Smith signed.''"
  have split: "spaces CHUNK_SIZE = spaces 1048576 @ spaces 1048576 @ spaces 1048576 @ spaces 1048576"
    by (simp add: CHUNK_SIZE_def spaces_add [symmetric])
  have tail: "pieces 1048576 ?tail = [?tail]"
    by (rule pieces_last) (simp_all add: length_spaces)
  have "pieces 1048576 (spaces CHUNK_SIZE @ ?tail) =
      [spaces 1048576, spaces 1048576, spaces 1048576, spaces 1048576, ?tail]"
    unfolding split by (simp add: pieces_full length_spaces tail)
  moreover have "length (spaces CHUNK_SIZE @ ?tail) > MAX_CHUNK_SIZE"
    by (simp add: length_spaces CHUNK_SIZE_def MAX_CHUNK_SIZE_def)
  moreover have "spaces CHUNK_SIZE @ ?tail \<noteq> []" by simp
  ultimately have "normalizeText (spaces CHUNK_SIZE @ ?tail) = normalizeTextChunk ''John Smith signed.''"
    by (simp add: normalizeText_def MAX_CHUNK_SIZE_def normalizeTextChunk_only_spaces
        normalizeTextChunk_spaces)
  also have "\<dots> = ''john smith signed''"
    using eval_normalize_adjacent by (simp add: normalizeText_def MAX_CHUNK_SIZE_def)
  finally show ?thesis by (simp add: paddedChunk_def)
qed

lemma normalize_first_padded: "normalizeText (spaces CHUNK_SIZE) = []"
proof -
  have split: "spaces CHUNK_SIZE = spaces 1048576 @ spaces 1048576 @ spaces 1048576 @ spaces 1048576 @ []"
    by (simp add: CHUNK_SIZE_def spaces_add [symmetric])
  have "pieces 1048576 [] = []" by (subst pieces.simps) simp
  then have "pieces 1048576 (spaces CHUNK_SIZE) =
      [spaces 1048576, spaces 1048576, spaces 1048576, spaces 1048576]"
    unfolding split by (simp add: pieces_full length_spaces spaces_nonempty)
  moreover have "length (spaces CHUNK_SIZE) > MAX_CHUNK_SIZE"
    by (simp add: length_spaces CHUNK_SIZE_def MAX_CHUNK_SIZE_def)
  moreover have "spaces CHUNK_SIZE \<noteq> []" by (simp add: spaces_def CHUNK_SIZE_def)
  ultimately show ?thesis
    by (simp add: normalizeText_def MAX_CHUNK_SIZE_def normalizeTextChunk_only_spaces)
qed

lemma normalize_second_padded:
  "normalizeText (spaces OVERLAP_SIZE @ paddedChunk) = ''johnsmith signed''"
proof -
  have w: "spaces OVERLAP_SIZE @ paddedChunk = (spaces 1048571 @ ''John '') @ ''Smith signed.''"
    by (simp add: OVERLAP_SIZE_def paddedChunk_def spaces_add [symmetric])
  have last: "pieces 1048576 ''Smith signed.'' = [''Smith signed.'']"
    by (rule pieces_last) simp_all
  have "pieces 1048576 ((spaces 1048571 @ ''John '') @ ''Smith signed.'') =
      [spaces 1048571 @ ''John '', ''Smith signed.'']"
    by (subst pieces_full) (simp_all add: length_spaces last)
  moreover have "length ((spaces 1048571 @ ''John '') @ ''Smith signed.'') > MAX_CHUNK_SIZE"
    by (simp add: length_spaces MAX_CHUNK_SIZE_def)
  ultimately have "normalizeText (spaces OVERLAP_SIZE @ paddedChunk) =
      normalizeTextChunk ''John '' @ normalizeTextChunk ''Smith signed.''"
    unfolding w by (simp add: normalizeText_def MAX_CHUNK_SIZE_def normalizeTextChunk_spaces)
  moreover have "normalizeTextChunk ''John '' = ''john''"
    using eval_normalize_first_chunk by (simp add: normalizeText_def MAX_CHUNK_SIZE_def)
  moreover have "normalizeTextChunk ''Smith signed.'' = ''smith signed''"
    using eval_normalize_second_chunk by (simp add: normalizeText_def MAX_CHUNK_SIZE_def)
  ultimately show ?thesis by simp
qed

lemma eval_search_glued: "search [''john smith'', ''acme holdings''] ''johnsmith signed'' = []"
  by (simp add: search_def patternsEndingAt_def endsAt_def)

lemma slice_tail:
  assumes "0 < n" "n \<le> length s"
  shows "slice s (- int n) (int (length s)) = drop (length s - n) s"
proof -
  have "nat (int (length s) - int n) = length s - n" by arith
  then show ?thesis using assms by (simp add: slice_def sliceIndex_def)
qed

lemma scan_first_padded:
  "onData smithAutomaton initialState (spaces CHUNK_SIZE) =
     \<lparr>prospectHits = [], processedBytes = CHUNK_SIZE, previousOverlap = spaces OVERLAP_SIZE\<rparr>"
proof -
  have "slice (spaces CHUNK_SIZE) (- int OVERLAP_SIZE) (int (length (spaces CHUNK_SIZE))) =
      spaces OVERLAP_SIZE"
    by (subst slice_tail) (simp_all add: spaces_def CHUNK_SIZE_def OVERLAP_SIZE_def)
  moreover have "search (snd smithAutomaton) [] = []" by (simp add: search_def)
  moreover have "OVERLAP_SIZE < CHUNK_SIZE" by (simp add: CHUNK_SIZE_def OVERLAP_SIZE_def)
  ultimately show ?thesis
    by (simp add: onData_def initialState_def normalize_first_padded length_spaces Let_def)
qed

lemma scan_second_padded:
  "prospectHits (onData smithAutomaton
       \<lparr>prospectHits = [], processedBytes = CHUNK_SIZE, previousOverlap = spaces OVERLAP_SIZE\<rparr>
       paddedChunk) = []"
  by (simp add: onData_def normalize_second_padded smithAutomaton_def eval_search_glued Let_def)

lemma scan_whole_padded:
  "prospectHits (onData smithAutomaton initialState (spaces CHUNK_SIZE @ paddedChunk)) =
     [(''1'', \<lparr>nameHit = True, companyHit = False, contexts = [adjacentContext]\<rparr>)]"
  by (simp add: onData_def initialState_def smithAutomaton_def normalize_whole_padded
      eval_search_adjacent eval_boundaries_adjacent eval_regex_adjacent processPattern_def
      recordVariation_def newHit_def makeContext_def adjacentContext_def slice_def sliceIndex_def
      Let_def)

text \<open>
  Claim C6, evaluated at two documents. The text \<open>John Smith signed.\<close> read as one
  chunk gives a \<open>NameOnly\<close> match. Read as the chunks \<open>John \<close> and \<open>Smith signed.\<close>
  it gives none: \<open>previousOverlap\<close> is set only when the window is longer than
  \<open>OVERLAP_SIZE\<close>, so after the short first chunk nothing is carried over. The padded
  document read as one chunk gives the match as well. Read as a first chunk of
  \<open>CHUNK_SIZE\<close> characters and the rest, it gives none: the second window, the overlap
  and the rest, is longer than \<open>MAX_CHUNK_SIZE\<close>, so \<open>normalizeText\<close> normalizes it in
  pieces, and the first piece ends behind \<open>John \<close>; trimmed and joined to the next,
  the pieces read \<open>johnsmith signed\<close>.
\<close>

theorem chunking_loses_matches:
  "processFileLinear env smithProspects (buildAutomaton smithProspects)
      (Stream [''John Smith signed.''] StreamEnd) filename =
     Resolved [makeMatch env \<lparr>ident = ''1'', name = ''John A. Smith'', company = ''Acme Holdings''\<rparr>
                 ''1'' filename NameOnly 75 [adjacentContext]] \<and>
   processFileLinear env smithProspects (buildAutomaton smithProspects)
      (Stream [''John '', ''Smith signed.''] StreamEnd) filename = Resolved [] \<and>
   processFileLinear env smithProspects (buildAutomaton smithProspects)
      (Stream [spaces CHUNK_SIZE @ paddedChunk] StreamEnd) filename =
     Resolved [makeMatch env \<lparr>ident = ''1'', name = ''John A. Smith'', company = ''Acme Holdings''\<rparr>
                 ''1'' filename NameOnly 75 [adjacentContext]] \<and>
   processFileLinear env smithProspects (buildAutomaton smithProspects)
      (Stream [spaces CHUNK_SIZE, paddedChunk] StreamEnd) filename = Resolved []"
  by (simp add: processFileLinear_def eval_smith_automaton eval_scan_adjacent eval_classify_adjacent
      eval_scan_first_chunk eval_scan_second_chunk generateMatchResults_no_hits
      scan_first_padded scan_second_padded scan_whole_padded)

section \<open>A run with a failing document, and a deduplication, evaluated\<close>

lemma deduplicateMatches_single: "deduplicateMatches [m] = [m]"
  by (simp add: deduplicateMatches_def keepBest_def sortBy_def)

lemma eval_adjacent_document:
  "processFileLinear env smithProspects (buildAutomaton smithProspects)
      (Stream [''John Smith signed.''] StreamEnd) filename =
     Resolved [makeMatch env \<lparr>ident = ''1'', name = ''John A. Smith'', company = ''Acme Holdings''\<rparr>
                 ''1'' filename NameOnly 75 [adjacentContext]]"
  by (simp add: processFileLinear_def eval_smith_automaton eval_scan_adjacent eval_classify_adjacent)

lemma eval_good_file_alone:
  "processMatchingLinear exampleEnvironment exampleFiles smithProspects [goodFile] =
     [makeMatch exampleEnvironment
        \<lparr>ident = ''1'', name = ''John A. Smith'', company = ''Acme Holdings''\<rparr>
        ''1'' ''good.txt'' NameOnly 75 [adjacentContext]]"
  by (simp add: processMatchingLinear_def exampleFiles_def goodFile_def eval_adjacent_document
      BATCH_SIZE_def deduplicateMatches_single)

theorem read_error_gives_no_results_witness:
  "exampleFiles (path badFile) = Stream [''John Smith si''] StreamError \<and>
   processMatchingLinear exampleEnvironment exampleFiles smithProspects [badFile, goodFile] =
     [makeMatch exampleEnvironment
        \<lparr>ident = ''1'', name = ''John A. Smith'', company = ''Acme Holdings''\<rparr>
        ''1'' ''good.txt'' NameOnly 75 [adjacentContext]]"
proof -
  have bad: "exampleFiles (path badFile) = Stream [''John Smith si''] StreamError"
    by (simp add: exampleFiles_def badFile_def)
  have "processMatchingLinear exampleEnvironment exampleFiles smithProspects ([] @ badFile # [goodFile]) =
        processMatchingLinear exampleEnvironment exampleFiles smithProspects ([] @ [goodFile])"
    using read_error_gives_no_results [of exampleEnvironment smithProspects "([], [])"
        "[''John Smith si'']" "''bad.txt''" exampleFiles badFile "[]" "[goodFile]"] bad
    by blast
  then show ?thesis using bad by (simp add: eval_good_file_alone)
qed

theorem deduplicateMatches_best_per_key_witness:
  "CHR '':'' \<notin> set (prospect_id lowerMatch) \<and> CHR '':'' \<notin> set (prospect_id higherMatch) \<and>
   deduplicateMatches [lowerMatch, higherMatch] = [higherMatch] \<and>
   bestOf [lowerMatch, higherMatch] higherMatch \<and>
   distinct (map (\<lambda>m. (prospect_id m, sec_filing m)) (deduplicateMatches [lowerMatch, higherMatch]))"
proof -
  have e: "deduplicateMatches [lowerMatch, higherMatch] = [higherMatch]"
    by (simp add: deduplicateMatches_def keepBest_def sortBy_def dedupKey_def
        lowerMatch_def higherMatch_def)
  have c: "\<forall>m \<in> set [lowerMatch, higherMatch]. CHR '':'' \<notin> set (prospect_id m)"
    by (simp add: lowerMatch_def higherMatch_def)
  from deduplicateMatches_best_per_key [of "[lowerMatch, higherMatch]"] c
  have "bestOf [lowerMatch, higherMatch] higherMatch \<and>
    distinct (map (\<lambda>m. (prospect_id m, sec_filing m)) (deduplicateMatches [lowerMatch, higherMatch]))"
    unfolding e by simp
  then show ?thesis using e c by simp
qed

section \<open>Further scenarios, evaluated\<close>

lemma eval_names_aaron_davis:
  "generateNamePatterns ''Aaron Davis'' =
     [\<lparr>pattern_text = ''aaron davis'', vtype = first_last_exact, firstName = ''aaron'',
       lastName = ''davis'', allowInitial = False\<rparr>,
      \<lparr>pattern_text = ''aaron davis'', vtype = first_last_with_initial, firstName = ''aaron'',
       lastName = ''davis'', allowInitial = True\<rparr>]"
  by (simp add: generateNamePatterns_def nameTokens_def normalize_defs char_class_defs Let_def)

lemma eval_company_davis_corp:
  "generateCompanyPatterns ''Davis Corp'' =
     [\<lparr>pattern_text = ''davis'', vtype = company_root, firstName = [], lastName = [],
       allowInitial = False\<rparr>]"
  by (simp add: generateCompanyPatterns_def eval_normalize_davis eval_root_davis)

lemma eval_davis_automaton: "buildAutomaton [davisProspect] = davisAutomaton"
  by (simp add: davisProspect_def davisAutomaton_def automaton_defs eval_names_aaron_davis
      eval_company_davis_corp Let_def)

lemma eval_normalize_joined:
  "normalizeText ''Aaron Davis joined Davis Corp.'' = ''aaron davis joined davis corp''"
  by (simp add: normalize_defs char_class_defs)

lemma eval_search_joined:
  "search [''aaron davis'', ''davis''] ''aaron davis joined davis corp'' =
     [(10, [''aaron davis'', ''davis'']), (23, [''davis''])]"
  by (simp add: search_def patternsEndingAt_def endsAt_def)

lemmas boundary_defs = hasValidWordBoundaries_def beforeChar_def afterChar_def charAt_def
  isBoundaryChar_def

lemma eval_boundaries_joined:
  "hasValidWordBoundaries ''aaron davis joined davis corp'' \<lparr>start = 0, stop = 11, pattern = ''aaron davis''\<rparr>"
  "hasValidWordBoundaries ''aaron davis joined davis corp'' \<lparr>start = 6, stop = 11, pattern = ''davis''\<rparr>"
  "hasValidWordBoundaries ''aaron davis joined davis corp'' \<lparr>start = 19, stop = 24, pattern = ''davis''\<rparr>"
  by (simp_all add: boundary_defs char_class_defs)

lemma eval_regex_joined: "nameRegexTest ''aaron'' ''davis'' ''aaron davis joined davis corp''"
proof (rule nameRegexTest_at [where i = 0])
  show "nameRegexAt ''aaron'' ''davis'' ''aaron davis joined davis corp'' 0"
    by (simp add: regex_defs char_class_defs)
qed simp

lemmas scan_defs = onData_def initialState_def processPattern_def recordVariation_def newHit_def
  makeContext_def slice_def sliceIndex_def

lemma eval_scan_joined:
  "prospectHits (onData davisAutomaton initialState ''Aaron Davis joined Davis Corp.'') =
     [(''1'', \<lparr>nameHit = True, companyHit = True, contexts = [davisContext]\<rparr>)]"
  by (simp add: scan_defs davisAutomaton_def eval_normalize_joined eval_search_joined
      eval_boundaries_joined eval_regex_joined davisContext_def Let_def)

lemma eval_normalize_mentioned:
  "normalizeText ''Mark Davis, John Davis, and Davis Industries were mentioned.'' =
     ''mark davis john davis and davis industries were mentioned''"
  by (simp add: normalize_defs char_class_defs)

lemma eval_search_mentioned:
  "search [''aaron davis'', ''davis''] ''mark davis john davis and davis industries were mentioned'' =
     [(9, [''davis'']), (20, [''davis'']), (30, [''davis''])]"
  by (simp add: search_def patternsEndingAt_def endsAt_def)

lemma eval_boundaries_mentioned:
  "hasValidWordBoundaries ''mark davis john davis and davis industries were mentioned''
     \<lparr>start = 5, stop = 10, pattern = ''davis''\<rparr>"
  "hasValidWordBoundaries ''mark davis john davis and davis industries were mentioned''
     \<lparr>start = 16, stop = 21, pattern = ''davis''\<rparr>"
  "hasValidWordBoundaries ''mark davis john davis and davis industries were mentioned''
     \<lparr>start = 26, stop = 31, pattern = ''davis''\<rparr>"
  by (simp_all add: boundary_defs char_class_defs)

lemma eval_scan_mentioned:
  "prospectHits (onData davisAutomaton initialState
       ''Mark Davis, John Davis, and Davis Industries were mentioned.'') =
     [(''1'', \<lparr>nameHit = False, companyHit = True, contexts = [mentionedContext]\<rparr>)]"
  by (simp add: scan_defs davisAutomaton_def eval_normalize_mentioned eval_search_mentioned
      eval_boundaries_mentioned mentionedContext_def Let_def)

text \<open>
  Two scenarios for the prospect \<open>Aaron Davis\<close> of \<open>Davis Corp\<close>. The document
  \<open>Aaron Davis joined Davis Corp.\<close> gives one match, of type \<open>NameAndCompany\<close> with
  confidence 95. The document that names other persons called Davis and the company
  root sets \<open>companyHit\<close> only, and gives no match.
\<close>

theorem davis_scenarios:
  "processFileLinear env [davisProspect] (buildAutomaton [davisProspect])
      (Stream [''Aaron Davis joined Davis Corp.''] StreamEnd) filename =
     Resolved [makeMatch env davisProspect ''1'' filename NameAndCompany 95 [davisContext]] \<and>
   processFileLinear env [davisProspect] (buildAutomaton [davisProspect])
      (Stream [''Mark Davis, John Davis, and Davis Industries were mentioned.''] StreamEnd) filename =
     Resolved []"
proof -
  have "generateMatchResults env [davisProspect] filename
      [(''1'', \<lparr>nameHit = True, companyHit = True, contexts = [davisContext]\<rparr>)] =
    [makeMatch env davisProspect ''1'' filename NameAndCompany 95 [davisContext]]"
    by (simp add: generateMatchResults_def generateMatchResult_def davisProspect_def
        slice_def sliceIndex_def)
  moreover have "generateMatchResults env [davisProspect] filename
      [(''1'', \<lparr>nameHit = False, companyHit = True, contexts = [mentionedContext]\<rparr>)] = []"
    by (simp add: generateMatchResults_def generateMatchResult_def davisProspect_def)
  ultimately show ?thesis
    by (simp add: processFileLinear_def eval_davis_automaton eval_scan_joined eval_scan_mentioned)
qed

lemma eval_names_jane_davis:
  "generateNamePatterns ''Jane Davis'' =
     [\<lparr>pattern_text = ''jane davis'', vtype = first_last_exact, firstName = ''jane'',
       lastName = ''davis'', allowInitial = False\<rparr>,
      \<lparr>pattern_text = ''jane davis'', vtype = first_last_with_initial, firstName = ''jane'',
       lastName = ''davis'', allowInitial = True\<rparr>]"
  by (simp add: generateNamePatterns_def nameTokens_def normalize_defs char_class_defs Let_def)

lemma eval_company_beta_partners:
  "generateCompanyPatterns ''Beta Partners'' =
     [\<lparr>pattern_text = ''beta partners'', vtype = company_root, firstName = [], lastName = [],
       allowInitial = False\<rparr>]"
  by (simp add: company_defs normalize_defs char_class_defs)

lemma eval_jane_automaton: "buildAutomaton janeProspects = janeAutomaton"
  by (simp add: janeProspects_def janeAutomaton_def automaton_defs eval_names_jane_davis
      eval_company_acme_corp eval_company_beta_partners Let_def)

lemma eval_normalize_resigned: "normalizeText ''Jane Davis resigned.'' = ''jane davis resigned''"
  by (simp add: normalize_defs char_class_defs)

lemma eval_search_resigned:
  "search [''jane davis'', ''acme'', ''beta partners''] ''jane davis resigned'' = [(9, [''jane davis''])]"
  by (simp add: search_def patternsEndingAt_def endsAt_def)

lemma eval_boundaries_resigned:
  "hasValidWordBoundaries ''jane davis resigned'' \<lparr>start = 0, stop = 10, pattern = ''jane davis''\<rparr>"
  by (simp add: boundary_defs char_class_defs)

lemma eval_regex_resigned: "nameRegexTest ''jane'' ''davis'' ''jane davis resigned''"
proof (rule nameRegexTest_at [where i = 0])
  show "nameRegexAt ''jane'' ''davis'' ''jane davis resigned'' 0"
    by (simp add: regex_defs char_class_defs)
qed simp

lemma eval_scan_resigned:
  "prospectHits (onData janeAutomaton initialState ''Jane Davis resigned.'') =
     [(''1'', \<lparr>nameHit = True, companyHit = False, contexts = [janeContext]\<rparr>),
      (''2'', \<lparr>nameHit = True, companyHit = False, contexts = [janeContext]\<rparr>)]"
  by (simp add: scan_defs janeAutomaton_def eval_normalize_resigned eval_search_resigned
      eval_boundaries_resigned eval_regex_resigned janeContext_def Let_def)

text \<open>
  Two prospects whose names give the same pattern: a document with that name gives a
  match for each prospect id, and the deduplication keeps both.
\<close>

theorem shared_name_gives_a_match_per_prospect:
  "processMatchingLinear env (\<lambda>p. Stream [''Jane Davis resigned.''] StreamEnd) janeProspects
      [\<lparr>path = p, originalname = filename\<rparr>] =
     [makeMatch env \<lparr>ident = ''1'', name = ''Jane Davis'', company = ''Acme Corp''\<rparr>
        ''1'' filename NameOnly 75 [janeContext],
      makeMatch env \<lparr>ident = ''2'', name = ''Jane Davis'', company = ''Beta Partners''\<rparr>
        ''2'' filename NameOnly 75 [janeContext]]"
proof -
  have c: "generateMatchResults env janeProspects filename
      [(''1'', \<lparr>nameHit = True, companyHit = False, contexts = [janeContext]\<rparr>),
       (''2'', \<lparr>nameHit = True, companyHit = False, contexts = [janeContext]\<rparr>)] =
     [makeMatch env \<lparr>ident = ''1'', name = ''Jane Davis'', company = ''Acme Corp''\<rparr>
        ''1'' filename NameOnly 75 [janeContext],
      makeMatch env \<lparr>ident = ''2'', name = ''Jane Davis'', company = ''Beta Partners''\<rparr>
        ''2'' filename NameOnly 75 [janeContext]]"
    by (simp add: generateMatchResults_def generateMatchResult_def janeProspects_def
        janeContext_def slice_def sliceIndex_def)
  have d: "deduplicateMatches
      [makeMatch env a ''1'' filename NameOnly 75 cs, makeMatch env b ''2'' filename NameOnly 75 cs] =
      [makeMatch env a ''1'' filename NameOnly 75 cs, makeMatch env b ''2'' filename NameOnly 75 cs]"
    for a b cs
    by (simp add: deduplicateMatches_def keepBest_def sortBy_def dedupKey_def makeMatch_def
        compareMatches_def)
  show ?thesis
    by (simp add: processMatchingLinear_def processFileLinear_def eval_jane_automaton
        eval_scan_resigned c d BATCH_SIZE_def)
qed

text \<open>
  The promise of \<open>processFileLinear\<close> is never rejected, whatever reading the file does.
\<close>

theorem processFileLinear_never_rejects:
  "processFileLinear env prospects automaton source filename \<noteq> Rejected"
  using processFileLinear_resolves [of env prospects automaton source filename] by auto

section \<open>The prospects of the hit records\<close>

lemma registrations_ident:
  "r \<in> set (registrations prospects) \<Longrightarrow> fst (snd r) \<in> ident ` set prospects"
  by (auto simp: registrations_def prospectRegistrations_def)

lemma entryOf_Some:
  "entryOf rs = Some info \<Longrightarrow>
     variations info = map (\<lambda>r. tagVariation (fst (snd r)) (snd (snd r))) rs"
  by (cases rs) (auto simp: entryOf_def)

lemma ownedBy_buildAutomaton: "ownedBy prospects (fst (buildAutomaton prospects))"
proof -
  have reg: "registered (registrations prospects) (buildAutomaton prospects)"
    by (simp add: buildAutomaton_registrations registered_foldl)
  show ?thesis
    unfolding ownedBy_def
  proof (intro allI impI ballI)
    fix t info v
    assume "map_of (fst (buildAutomaton prospects)) t = Some info" and v: "v \<in> set (variations info)"
    then have "entryOf (filter (\<lambda>r. registrationText r = t) (registrations prospects)) = Some info"
      using reg by (simp add: registered_def)
    then have "variations info = map (\<lambda>r. tagVariation (fst (snd r)) (snd (snd r)))
        (filter (\<lambda>r. registrationText r = t) (registrations prospects))"
      by (rule entryOf_Some)
    then obtain r where "r \<in> set (registrations prospects)"
      and "v = tagVariation (fst (snd r)) (snd (snd r))"
      using v by auto
    then show "prospectId v \<in> ident ` set prospects"
      using registrations_ident by (simp add: tagVariation_def)
  qed
qed

lemma keys_recordVariation:
  "fst ` set (recordVariation t n pat info a b hits v) \<subseteq> insert (prospectId v) (fst ` set hits)"
  by (auto simp: recordVariation_def Let_def dom_update split: option.splits)

lemma keys_foldl_recordVariation:
  "fst ` set (foldl (recordVariation t n pat info a b) hits vs) \<subseteq> prospectId ` set vs \<union> fst ` set hits"
proof (induction vs arbitrary: hits)
  case Nil
  show ?case by simp
next
  case (Cons v vs)
  have "fst ` set (foldl (recordVariation t n pat info a b) (recordVariation t n pat info a b hits v) vs)
      \<subseteq> prospectId ` set vs \<union> fst ` set (recordVariation t n pat info a b hits v)"
    by (rule Cons.IH)
  then show ?case using keys_recordVariation [of t n pat info a b hits v] by auto
qed

lemma keys_processPattern:
  assumes "ownedBy prospects pm" "fst ` set hits \<subseteq> ident ` set prospects"
  shows "fst ` set (processPattern pm t n e hits pat) \<subseteq> ident ` set prospects"
proof (cases "map_of pm pat")
  case None
  then show ?thesis using assms(2) by (simp add: processPattern_def)
next
  case (Some info)
  then have owned: "prospectId ` set (variations info) \<subseteq> ident ` set prospects"
    using assms(1) by (auto simp: ownedBy_def)
  have f: "fst ` set (foldl (recordVariation t n pat info a b) hits (variations info))
      \<subseteq> ident ` set prospects" for a b
  proof -
    have "fst ` set (foldl (recordVariation t n pat info a b) hits (variations info))
        \<subseteq> prospectId ` set (variations info) \<union> fst ` set hits"
      by (rule keys_foldl_recordVariation)
    also have "\<dots> \<subseteq> ident ` set prospects"
      using owned assms(2) by (rule Un_least)
    finally show ?thesis .
  qed
  have "processPattern pm t n e hits pat = hits \<or>
      processPattern pm t n e hits pat =
        foldl (recordVariation t n pat info (int e - int (length pat) + 1) (int e)) hits (variations info)"
    using Some by (simp add: processPattern_def Let_def)
  then show ?thesis
  proof
    assume "processPattern pm t n e hits pat = hits"
    then show ?thesis using assms(2) by simp
  next
    assume "processPattern pm t n e hits pat =
        foldl (recordVariation t n pat info (int e - int (length pat) + 1) (int e)) hits (variations info)"
    then show ?thesis using f by simp
  qed
qed

lemma keys_foldl_processPattern:
  assumes "ownedBy prospects pm" "fst ` set hits \<subseteq> ident ` set prospects"
  shows "fst ` set (foldl (processPattern pm t n e) hits pats) \<subseteq> ident ` set prospects"
  using assms(2)
  by (induction pats arbitrary: hits) (simp_all add: keys_processPattern [OF assms(1)])

lemma keys_onData:
  assumes "ownedBy prospects (fst aut)" "fst ` set (prospectHits st) \<subseteq> ident ` set prospects"
  shows "fst ` set (prospectHits (onData aut st chunk)) \<subseteq> ident ` set prospects"
proof -
  have "fst ` set (foldl (\<lambda>hits (e, ps). foldl (processPattern (fst aut) t n e) hits ps) hits ms)
      \<subseteq> ident ` set prospects"
    if "fst ` set hits \<subseteq> ident ` set prospects" for hits t n and ms :: "(nat \<times> string list) list"
    using that
  proof (induction ms arbitrary: hits)
    case Nil
    then show ?case by simp
  next
    case (Cons m ms)
    obtain e ps where m: "m = (e, ps)" by (cases m)
    have "fst ` set (foldl (processPattern (fst aut) t n e) hits ps) \<subseteq> ident ` set prospects"
      using assms(1) Cons.prems by (rule keys_foldl_processPattern)
    then show ?case using Cons.IH m by simp
  qed
  then show ?thesis using assms(2) by (simp add: onData_def Let_def)
qed

lemma keys_scan:
  assumes "ownedBy prospects (fst aut)"
  shows "fst ` set (prospectHits (foldl (onData aut) initialState chunks)) \<subseteq> ident ` set prospects"
proof -
  have "fst ` set (prospectHits (foldl (onData aut) st chunks)) \<subseteq> ident ` set prospects"
    if "fst ` set (prospectHits st) \<subseteq> ident ` set prospects" for st
    using that by (induction chunks arbitrary: st) (simp_all add: keys_onData [OF assms])
  then show ?thesis by (simp add: initialState_def)
qed

text \<open>
  Every hit record the scan of a document creates is filed under the id of a prospect of
  the list the automaton was built from, so \<open>generateMatchResults\<close> finds the prospect of
  every record and skips none.
\<close>

theorem every_hit_record_has_its_prospect:
  "\<forall>e \<in> set (prospectHits (foldl (onData (buildAutomaton prospects)) initialState chunks)).
     \<exists>p \<in> set prospects. find (\<lambda>p. ident p = fst e) prospects = Some p"
proof
  fix e
  assume "e \<in> set (prospectHits (foldl (onData (buildAutomaton prospects)) initialState chunks))"
  then have "fst e \<in> ident ` set prospects"
    using keys_scan [OF ownedBy_buildAutomaton, of prospects chunks] by blast
  then have "find (\<lambda>p. ident p = fst e) prospects \<noteq> None"
    by (auto simp: find_None_iff)
  then obtain p where p: "find (\<lambda>p. ident p = fst e) prospects = Some p" by blast
  then have "p \<in> set prospects" by (auto simp: find_Some_iff)
  then show "\<exists>p \<in> set prospects. find (\<lambda>p. ident p = fst e) prospects = Some p"
    using p by blast
qed

theorem every_hit_record_has_its_prospect_witness:
  "(''1'', \<lparr>nameHit = True, companyHit = False, contexts = [adjacentContext]\<rparr>)
     \<in> set (prospectHits (foldl (onData (buildAutomaton smithProspects)) initialState
                [''John Smith signed.''])) \<and>
   (\<exists>p. find (\<lambda>p. ident p = ''1'') smithProspects = Some p)"
proof -
  have m: "(''1'', \<lparr>nameHit = True, companyHit = False, contexts = [adjacentContext]\<rparr>)
     \<in> set (prospectHits (foldl (onData (buildAutomaton smithProspects)) initialState
                [''John Smith signed.'']))"
    by (simp add: eval_smith_automaton eval_scan_adjacent)
  then show ?thesis
    using every_hit_record_has_its_prospect [of smithProspects "[''John Smith signed.'']"]
    by fastforce
qed

end
